theory Spec2Isabelle
  imports Main "HOL-Library.Multiset"
begin

section \<open>The document tree\<close>

text \<open>
  \<^verbatim>\<open>src/converters/xml.js\<close> works on the tree that \<^verbatim>\<open>cheerio.load\<close> builds from an
  HTML string: element nodes with a tag name, an ordered attribute list and children, and
  text nodes. A string that holds HTML (\<^verbatim>\<open>this._html\<close>, \<^verbatim>\<open>chapter.content\<close>) is
  represented by the list of top-level nodes it parses to; \<open>html\<close> below is the
  serialiser (\<^verbatim>\<open>$.html()\<close>) that gives the string back. Text is kept in its serialised
  (entity-encoded) form. An attribute value is the string that \<^verbatim>\<open>attr\<close> returns and that
  a selector compares; the serialiser copies it, which is what the library does for a
  value without a character that it escapes. Comment nodes and directives are outside the
  model.
\<close>

type_synonym attribs = "(string \<times> string) list"

datatype node = Text string | Element string attribs "node list"

fun isTag :: "node \<Rightarrow> bool" where
  "isTag (Text s) = False"
| "isTag (Element name as cs) = True"

fun tagName :: "node \<Rightarrow> string" where
  "tagName (Text s) = []"
| "tagName (Element name as cs) = name"

fun attribs :: "node \<Rightarrow> attribs" where
  "attribs (Text s) = []"
| "attribs (Element name as cs) = as"

fun childNodes :: "node \<Rightarrow> node list" where
  "childNodes (Text s) = []"
| "childNodes (Element name as cs) = cs"

text \<open>\<^verbatim>\<open>$(el).attr(name)\<close>: the value, or undefined (\<open>None\<close>).\<close>

definition attr :: "string \<Rightarrow> attribs \<Rightarrow> string option" where
  "attr name as = map_of as name"

text \<open>\<^verbatim>\<open>$(el).removeAttr(name)\<close>.\<close>

definition removeAttr :: "string \<Rightarrow> attribs \<Rightarrow> attribs" where
  "removeAttr name as = filter (\<lambda>kv. fst kv \<noteq> name) as"

text \<open>
  \<^verbatim>\<open>$(el).attr(name, value)\<close> with a defined value: an existing attribute keeps its
  place, a new one goes last (the insertion order of the attribute object).
\<close>

fun setAttr :: "string \<Rightarrow> string \<Rightarrow> attribs \<Rightarrow> attribs" where
  "setAttr name v [] = [(name, v)]"
| "setAttr name v ((k, w) # as) =
     (if k = name then (k, v) # as else (k, w) # setAttr name v as)"

subsection \<open>Serialising and loading\<close>

definition singleTag :: "string list" where
  "singleTag = [''area'', ''base'', ''basefont'', ''br'', ''col'', ''command'', ''embed'',
     ''frame'', ''hr'', ''img'', ''input'', ''isindex'', ''keygen'', ''link'', ''meta'',
     ''param'', ''source'', ''track'', ''wbr'']"

definition render_attribs :: "attribs \<Rightarrow> string" where
  \<open>render_attribs as = concat (map (\<lambda>kv. '' '' @ fst kv @ ''="'' @ snd kv @ ''"'') as)\<close>

fun render :: "node \<Rightarrow> string" where
  "render (Text s) = s"
| "render (Element name as cs) =
     ''<'' @ name @ render_attribs as @ ''>'' @ concat (map render cs) @
     (if name \<in> set singleTag then [] else ''</'' @ name @ ''>'')"

text \<open>\<^verbatim>\<open>$.html()\<close> of a list of nodes: their outer HTML, concatenated.\<close>

definition html :: "node list \<Rightarrow> string" where
  "html ns = concat (map render ns)"

text \<open>
  \<^verbatim>\<open>cheerio.load(s)\<close> for a string \<open>s\<close> that an earlier \<^verbatim>\<open>$.html()\<close> produced: the
  elements come back as they were; text nodes that have become neighbours (because the
  element between them was removed) come back as one text node, and an empty text node
  does not come back at all. The parser adds no element of its own (the file reads the
  \<^verbatim>\<open>body\<close> of the converted document itself and loads fragments from then on).
\<close>

fun mergeText :: "node list \<Rightarrow> node list" where
  "mergeText [] = []"
| "mergeText (Text s # ns) =
     (if s = [] then mergeText ns
      else (case mergeText ns of
              Text t # ms \<Rightarrow> Text (s @ t) # ms
            | ms \<Rightarrow> Text s # ms))"
| "mergeText (Element name as cs # ns) = Element name as cs # mergeText ns"

fun reparse :: "node \<Rightarrow> node" where
  "reparse (Text s) = Text s"
| "reparse (Element name as cs) = Element name as (mergeText (map reparse cs))"

definition load :: "node list \<Rightarrow> node list" where
  "load ns = mergeText (map reparse ns)"

subsection \<open>Selectors\<close>

text \<open>
  A simple selector is a predicate on nodes. \<open>select\<close> is \<^verbatim>\<open>$(selector)\<close>: every
  matching element of the document, at any depth, in document order. \<open>removeSel\<close> is what
  \<^verbatim>\<open>$(selector).remove()\<close> leaves of the document. \<open>findSel\<close> is \<^verbatim>\<open>$(el).find(selector)\<close>
  and \<open>childrenSel\<close> is \<^verbatim>\<open>$(els).children(selector)\<close>.
\<close>

fun select :: "(node \<Rightarrow> bool) \<Rightarrow> node \<Rightarrow> node list" where
  "select P (Text s) = []"
| "select P (Element name as cs) =
     (if P (Element name as cs) then [Element name as cs] else []) @
     concat (map (select P) cs)"

definition selectAll :: "(node \<Rightarrow> bool) \<Rightarrow> node list \<Rightarrow> node list" where
  "selectAll P ns = concat (map (select P) ns)"

fun removeNode :: "(node \<Rightarrow> bool) \<Rightarrow> node \<Rightarrow> node list" where
  "removeNode P (Text s) = [Text s]"
| "removeNode P (Element name as cs) =
     (if P (Element name as cs) then []
      else [Element name as (concat (map (removeNode P) cs))])"

definition removeSel :: "(node \<Rightarrow> bool) \<Rightarrow> node list \<Rightarrow> node list" where
  "removeSel P ns = concat (map (removeNode P) ns)"

definition findSel :: "(node \<Rightarrow> bool) \<Rightarrow> node \<Rightarrow> node list" where
  "findSel P el = selectAll P (childNodes el)"

definition childrenSel :: "(node \<Rightarrow> bool) \<Rightarrow> node list \<Rightarrow> node list" where
  "childrenSel P els = concat (map (\<lambda>el. filter (\<lambda>c. isTag c \<and> P c) (childNodes el)) els)"

text \<open>The white space that separates the names of a \<^verbatim>\<open>class\<close> attribute.\<close>

definition isSpace :: "char \<Rightarrow> bool" where
  "isSpace c = (c \<in> set [CHR '' '', CHR 0x09, CHR 0x0A, CHR 0x0B, CHR 0x0C, CHR 0x0D])"

fun splitSpace :: "string \<Rightarrow> string \<Rightarrow> string list" where
  "splitSpace w [] = (if w = [] then [] else [w])"
| "splitSpace w (c # cs) =
     (if isSpace c then (if w = [] then [] else [w]) @ splitSpace [] cs
      else splitSpace (w @ [c]) cs)"

definition classes :: "node \<Rightarrow> string list" where
  "classes el = (case attr ''class'' (attribs el) of None \<Rightarrow> [] | Some v \<Rightarrow> splitSpace [] v)"

definition hasTag :: "string \<Rightarrow> node \<Rightarrow> bool" where
  "hasTag name el = (isTag el \<and> tagName el = name)"

definition hasClass :: "string \<Rightarrow> node \<Rightarrow> bool" where
  "hasClass c el = (isTag el \<and> c \<in> set (classes el))"

text \<open>\<^verbatim>\<open>$(els).text()\<close>: the text of the elements and of their descendants.\<close>

fun textOf :: "node \<Rightarrow> string" where
  "textOf (Text s) = s"
| "textOf (Element name as cs) = concat (map textOf cs)"

subsection \<open>Selectors built from a string\<close>

text \<open>
  \<^verbatim>\<open>getChapterSelector(titleInfo)\<close> splices the id into a selector string as it is.
\<close>

definition getChapterSelector :: "string \<Rightarrow> string" where
  \<open>getChapterSelector titleId = ''*[id="'' @ titleId @ ''"]''\<close>

text \<open>
  \<^verbatim>\<open>$(selector)\<close> compiles the string first and throws a \<^verbatim>\<open>SyntaxError\<close> when it is
  no selector. \<open>idItem\<close> reads one \<^verbatim>\<open>*[id="v"]\<close> at the start of a string, for a
  quoted value \<open>v\<close> (up to the first double quote) that is plain: printable ASCII
  without the double quote and the backslash (a backslash escapes the next character).
  \<open>idSelector\<close> reads a string made of such items: when the string ends after an item
  it is the selector of the elements whose \<^verbatim>\<open>id\<close> is one of the values; a comma and
  spaces lead to the next item of a selector list; a double quote after an item can
  start nothing, and the compilation fails. What every other string compiles to
  (combinators, escapes, other simple selectors) is left to the parameter \<open>other\<close>.
\<close>

datatype error = TypeError | SyntaxError

definition hasId :: "string \<Rightarrow> node \<Rightarrow> bool" where
  "hasId v el = (isTag el \<and> attr ''id'' (attribs el) = Some v)"

definition hasIds :: "string list \<Rightarrow> node \<Rightarrow> bool" where
  "hasIds vs el = list_ex (\<lambda>v. hasId v el) vs"

definition plainChar :: "char \<Rightarrow> bool" where
  "plainChar c = (32 \<le> (of_char c :: nat) \<and> (of_char c :: nat) \<le> 126 \<and>
                  c \<noteq> CHR 0x22 \<and> c \<noteq> CHR 0x5C)"

definition plainId :: "string \<Rightarrow> bool" where
  "plainId v = list_all plainChar v"

definition idItem :: "string \<Rightarrow> (string \<times> string) option" where
  \<open>idItem selector =
     (let v = takeWhile (\<lambda>c. c \<noteq> CHR 0x22) (drop 6 selector);
          rest = drop (6 + length v) selector
      in if take 6 selector = ''*[id="'' \<and> plainId v \<and> take 2 rest = ''"]''
         then Some (v, drop 2 rest)
         else None)\<close>

datatype parsed = Ids "string list" | Unmatched | Elsewhere

function idSelector :: "string \<Rightarrow> parsed" where
  "idSelector selector =
     (case idItem selector of
        None \<Rightarrow> Elsewhere
      | Some (v, rest) \<Rightarrow>
          (case rest of
             [] \<Rightarrow> Ids [v]
           | c # cs \<Rightarrow>
               if c = CHR 0x22 then Unmatched
               else if c = CHR '','' then
                 (case idSelector (dropWhile (\<lambda>c. c = CHR '' '') cs) of
                    Ids vs \<Rightarrow> Ids (v # vs)
                  | Unmatched \<Rightarrow> Unmatched
                  | Elsewhere \<Rightarrow> Elsewhere)
               else Elsewhere))"
  by pat_completeness auto
termination
proof (relation "measure length")
  show "wf (measure length)" by simp
next
  fix selector :: string and x v rest c cs
  assume "idItem selector = Some x" "(v, rest) = x" "rest = c # cs"
  then have "\<exists>n. drop n selector = c # cs"
    by (auto simp: idItem_def Let_def split: if_splits)
  then obtain n where "drop n selector = c # cs" by blast
  then have "length (c # cs) = length selector - n"
    by (metis length_drop)
  then have "length (c # cs) \<le> length selector" by simp
  moreover have "length (dropWhile (\<lambda>c. c = CHR '' '') cs) \<le> length cs"
    by (rule length_dropWhile_le)
  ultimately show "(dropWhile (\<lambda>c. c = CHR '' '') cs, selector) \<in> measure length"
    by simp
qed

definition compile ::
  "(string \<Rightarrow> error + (node \<Rightarrow> bool)) \<Rightarrow> string \<Rightarrow> error + (node \<Rightarrow> bool)" where
  "compile other selector =
     (case idSelector selector of
        Ids vs \<Rightarrow> Inr (hasIds vs)
      | Unmatched \<Rightarrow> Inl SyntaxError
      | Elsewhere \<Rightarrow> other selector)"

section \<open>Extraction of the chapters\<close>

text \<open>
  \<^verbatim>\<open>extractHTML(selector)\<close> loads \<^verbatim>\<open>this._html\<close>, returns the outer HTML of every
  element the selector matches and stores the document without them. The model takes the
  document and returns the matched elements (whose serialisation is the returned string)
  with the new document, or the error that \<^verbatim>\<open>$(selector)\<close> throws; \<^verbatim>\<open>this._html\<close> is
  not assigned then.
\<close>

definition extractHTML ::
  "(string \<Rightarrow> error + (node \<Rightarrow> bool)) \<Rightarrow> string \<Rightarrow> node list
     \<Rightarrow> error + (node list \<times> node list)" where
  "extractHTML other selector doc =
     (let d = load doc
      in (case compile other selector of
            Inl e \<Rightarrow> Inl e
          | Inr P \<Rightarrow> Inr (selectAll P d, removeSel P d)))"

text \<open>
  A chapter (\<^verbatim>\<open>types/chapter\<close>). The back-references of the source are object
  references; here \<open>parent\<close> holds the \<open>titleId\<close> of the parent chapter and
  \<open>previous\<close> and \<open>next'\<close> (the field \<^verbatim>\<open>next\<close>) hold the index of the sibling in the array that
  \<^verbatim>\<open>parseList\<close> returns. \<open>None\<close> is a field that was never assigned.
\<close>

datatype "chapter" = Chapter
  (level: nat)
  (parent: "string option")
  (type: "string option")
  (titleId: string)
  (title: string)
  (num: nat)
  (children: "chapter list")
  (content: "node list")
  (previous: "nat option")
  (next': "nat option")

text \<open>
  \<^verbatim>\<open>extractTOCTitleInfo($li)\<close>. \<^verbatim>\<open>utils.idFromRef\<close> is not part of this file; it is a
  parameter, from the \<^verbatim>\<open>href\<close> (or undefined) to the id.
\<close>

definition firstAttr :: "string \<Rightarrow> node list \<Rightarrow> string option" where
  "firstAttr name els = (case els of [] \<Rightarrow> None | el # _ \<Rightarrow> attr name (attribs el))"

definition extractTOCTitleInfo ::
  "(string option \<Rightarrow> string) \<Rightarrow> node \<Rightarrow> string option \<times> string \<times> string" where
  "extractTOCTitleInfo idFromRef li =
     (let span = childrenSel (hasTag ''span'') [li];
          link = childrenSel (hasTag ''a'') span
      in (firstAttr ''class'' span,
          idFromRef (firstAttr ''href'' link),
          concat (map textOf link)))"

text \<open>
  The second loop of \<^verbatim>\<open>parseList\<close>: every chapter but the first gets its left
  neighbour, every chapter but the last its right neighbour.
\<close>

definition setSiblings :: "chapter list \<Rightarrow> chapter list" where
  "setSiblings chapters =
     map (\<lambda>index.
            (case chapters ! index of
               Chapter lv pa ty ti tt nu ch co pr ne \<Rightarrow>
                 Chapter lv pa ty ti tt nu ch co
                   (if index > 0 then Some (index - 1) else pr)
                   (if index + 1 < length chapters then Some (index + 1) else ne)))
         [0 ..< length chapters]"

text \<open>
  \<^verbatim>\<open>parseList($ul, level, parent)\<close> with \<^verbatim>\<open>this._html\<close> passed in and returned.
  \<open>parseItems\<close> is the loop over the \<^verbatim>\<open>li\<close> children, with the array
  \<^verbatim>\<open>chapters\<close> built so far. An error of \<^verbatim>\<open>extractHTML\<close> is caught nowhere and ends
  every call that is running.
\<close>

fun nodeSize :: "node \<Rightarrow> nat" where
  "nodeSize (Text s) = 1"
| "nodeSize (Element name as cs) = Suc (sum_list (map nodeSize cs))"

function parseList ::
    "(string \<Rightarrow> error + (node \<Rightarrow> bool)) \<Rightarrow> (string option \<Rightarrow> string) \<Rightarrow> node list \<Rightarrow> nat
      \<Rightarrow> string option \<Rightarrow> node list \<Rightarrow> error + (chapter list \<times> node list)"
  and parseItems ::
    "(string \<Rightarrow> error + (node \<Rightarrow> bool)) \<Rightarrow> (string option \<Rightarrow> string) \<Rightarrow> node list \<Rightarrow> nat
      \<Rightarrow> string option \<Rightarrow> chapter list \<Rightarrow> node list \<Rightarrow> error + (chapter list \<times> node list)"
where
  "parseList other idFromRef ul lv pa doc =
     (case parseItems other idFromRef (childrenSel (hasTag ''li'') ul) lv pa [] doc of
        Inl e \<Rightarrow> Inl e
      | Inr (chapters, doc') \<Rightarrow> Inr (setSiblings chapters, doc'))"
| "parseItems other idFromRef [] lv pa chapters doc = Inr (chapters, doc)"
| "parseItems other idFromRef (li # lis) lv pa chapters doc =
     (case extractTOCTitleInfo idFromRef li of
        (ty, ti, tt) \<Rightarrow>
          (case parseList other idFromRef (childrenSel (hasTag ''ul'') [li]) (lv + 1) (Some ti)
                  doc of
             Inl e \<Rightarrow> Inl e
           | Inr (sub, doc1) \<Rightarrow>
               (case extractHTML other (getChapterSelector ti) doc1 of
                  Inl e \<Rightarrow> Inl e
                | Inr (co, doc2) \<Rightarrow>
                    parseItems other idFromRef lis lv pa
                      (chapters @
                         [Chapter lv pa ty ti tt (length chapters + 1) sub co None None])
                      doc2)))"
  by pat_completeness auto
termination
proof -
  let ?m = "\<lambda>x. case x of
          Inl (other, f, ul, lv, pa, doc) \<Rightarrow> 2 * sum_list (map nodeSize ul) + 1
        | Inr (other, f, lis, lv, pa, chapters, doc) \<Rightarrow>
            2 * sum_list (map nodeSize (lis :: node list))"
  have flt: "sum_list (map nodeSize (filter Q cs)) \<le> sum_list (map nodeSize cs)" for Q cs
    by (induction cs) auto
  have one: "sum_list (map nodeSize (filter Q (childNodes el))) < nodeSize el" for Q el
    using flt [of Q "childNodes el"] by (cases el) (auto intro: le_imp_less_Suc)
  have all: "sum_list (map nodeSize (childrenSel P els)) \<le> sum_list (map nodeSize els)"
    for P els
  proof (induction els)
    case Nil
    show ?case by (simp add: childrenSel_def)
  next
    case (Cons el els)
    from one [of "\<lambda>c. isTag c \<and> P c" el] Cons show ?case
      by (simp add: childrenSel_def)
  qed
  show ?thesis
  proof (relation "measure ?m")
    show "wf (measure ?m)" by simp
  next
    fix other :: "string \<Rightarrow> error + (node \<Rightarrow> bool)"
      and idFromRef :: "string option \<Rightarrow> string" and ul lv and pa :: "string option"
      and doc :: "node list"
    show "(Inr (other, idFromRef, childrenSel (hasTag ''li'') ul, lv, pa, [], doc),
           Inl (other, idFromRef, ul, lv, pa, doc)) \<in> measure ?m"
      using all [of "hasTag ''li''" ul] by simp
  next
    fix other :: "string \<Rightarrow> error + (node \<Rightarrow> bool)"
      and idFromRef :: "string option \<Rightarrow> string" and li lis lv and pa :: "string option"
      and chapters :: "chapter list" and doc :: "node list" and ti :: string
    show "(Inl (other, idFromRef, childrenSel (hasTag ''ul'') [li], lv + 1, Some ti, doc),
           Inr (other, idFromRef, li # lis, lv, pa, chapters, doc)) \<in> measure ?m"
      using one [of "\<lambda>c. isTag c \<and> hasTag ''ul'' c" li] by (simp add: childrenSel_def)
  next
    fix other :: "string \<Rightarrow> error + (node \<Rightarrow> bool)"
      and idFromRef :: "string option \<Rightarrow> string" and li lis lv and pa :: "string option"
      and chapters :: "chapter list" and doc doc2 co :: "node list" and ty ti tt sub
    show "(Inr (other, idFromRef, lis, lv, pa, chapters @
              [Chapter lv pa ty ti tt (length chapters + 1) sub co None None], doc2),
           Inr (other, idFromRef, li # lis, lv, pa, chapters, doc)) \<in> measure ?m"
      by (cases li) simp_all
  qed
qed

text \<open>
  Modelled from the spec: \<^verbatim>\<open>Chapter.getChildrenDeep\<close> is in \<^verbatim>\<open>types/chapter\<close>, which is
  not part of this file; the spec gives the order: each node is followed by the flattened
  sequence of its children.
\<close>

fun getChildrenDeep :: "chapter \<Rightarrow> chapter list" where
  "getChildrenDeep (Chapter lv pa ty ti tt nu ch co pr ne) =
     concat (map (\<lambda>c. c # getChildrenDeep c) ch)"


section \<open>Section ids\<close>

text \<open>The selector \<^verbatim>\<open>:header\<close>.\<close>

definition isHeader :: "node \<Rightarrow> bool" where
  "isHeader el = (isTag el \<and> tagName el \<in> set [''h1'', ''h2'', ''h3'', ''h4'', ''h5'', ''h6''])"

text \<open>
  \<open>setFirstIn P f ns\<close> changes the attributes of the first element of the forest
  \<open>ns\<close> (in document order, at any depth) that matches \<open>P\<close>; \<open>None\<close> when
  no element matches. It is \<^verbatim>\<open>$(section).find(':header').first().attr('id', sectionId)\<close>
  as a function of the children of the section.
\<close>

fun setFirst :: "(node \<Rightarrow> bool) \<Rightarrow> (attribs \<Rightarrow> attribs) \<Rightarrow> node \<Rightarrow> node option"
  and setFirstIn :: "(node \<Rightarrow> bool) \<Rightarrow> (attribs \<Rightarrow> attribs) \<Rightarrow> node list \<Rightarrow> node list option"
where
  "setFirst P f (Text s) = None"
| "setFirst P f (Element name as cs) =
     (if P (Element name as cs) then Some (Element name (f as) cs)
      else (case setFirstIn P f cs of
              None \<Rightarrow> None
            | Some cs' \<Rightarrow> Some (Element name as cs')))"
| "setFirstIn P f [] = None"
| "setFirstIn P f (c # cs) =
     (case setFirst P f c of
        Some c' \<Rightarrow> Some (c' # cs)
      | None \<Rightarrow> (case setFirstIn P f cs of
                   None \<Rightarrow> None
                 | Some cs' \<Rightarrow> Some (c # cs')))"

text \<open>
  The callback of \<^verbatim>\<open>$('section').each\<close> in \<^verbatim>\<open>setTitlesId\<close>, as a function of the
  subtree of the section. An id that is undefined or the empty string is falsy
  (\<open>truthy\<close>). Where the section has no header, \<^verbatim>\<open>$h\<close> is empty: \<^verbatim>\<open>$h.attr('id')\<close> is
  undefined, the assignment does nothing and the id of the section is removed.
\<close>

definition truthy :: "string option \<Rightarrow> bool" where
  "truthy v = (case v of None \<Rightarrow> False | Some s \<Rightarrow> s \<noteq> [])"

definition sectionCallback :: "node \<Rightarrow> node" where
  "sectionCallback section =
     (case attr ''id'' (attribs section) of
        None \<Rightarrow> section
      | Some sectionId \<Rightarrow>
          if \<not> truthy (Some sectionId) then section
          else if \<not> truthy (firstAttr ''id'' (take 1 (findSel isHeader section)))
               then Element (tagName section) (removeAttr ''id'' (attribs section))
                      (case setFirstIn isHeader (setAttr ''id'' sectionId)
                              (childNodes section) of
                         None \<Rightarrow> childNodes section
                       | Some cs' \<Rightarrow> cs')
               else section)"

text \<open>
  \<^verbatim>\<open>$('section').each(...)\<close>: the sections are visited in document order, so a section is
  visited after its ancestors and sees what their callbacks changed. The callback only
  touches the subtree of its section.
\<close>

function eachSection :: "node \<Rightarrow> node" where
  "eachSection (Text s) = Text s"
| "eachSection (Element name as cs) =
     (let el = (if name = ''section'' then sectionCallback (Element name as cs)
                else Element name as cs)
      in Element (tagName el) (attribs el) (map eachSection (childNodes el)))"
  by pat_completeness auto
termination
proof -
  have sf1: "setFirst P f n = Some n' \<Longrightarrow> nodeSize n' = nodeSize n"
    and sf: "setFirstIn P f ns = Some ns' \<Longrightarrow>
               sum_list (map nodeSize ns') = sum_list (map nodeSize ns)" for P f n n' ns ns'
    by (induction P f n and P f ns arbitrary: n' and ns' rule: setFirst_setFirstIn.induct)
       (auto split: option.splits if_splits)
  have cb: "sum_list (map nodeSize (childNodes (sectionCallback el))) =
            sum_list (map nodeSize (childNodes el))" for el
    using sf [of isHeader _ "childNodes el"]
    by (auto simp: sectionCallback_def split: option.splits)
  show ?thesis
  proof (relation "measure nodeSize")
    show "wf (measure nodeSize)" by simp
  next
    fix name :: string and as :: attribs and cs :: "node list" and el c
    assume el: "el = (if name = ''section'' then sectionCallback (Element name as cs)
                      else Element name as cs)"
      and c: "c \<in> set (childNodes el)"
    have "sum_list (map nodeSize (childNodes el)) = sum_list (map nodeSize cs)"
      using el cb [of "Element name as cs"] by (simp split: if_splits)
    moreover have "nodeSize c \<le> sum_list (map nodeSize (childNodes el))"
      using c by (simp add: member_le_sum_list)
    ultimately show "(c, Element name as cs) \<in> measure nodeSize" by simp
  qed
qed

text \<open>
  \<^verbatim>\<open>setTitlesId\<close> for one chapter. The children of a chapter are the same objects as the
  chapters that follow it in the flattened list, so they get their new content too.
\<close>

fun setTitlesId :: "chapter \<Rightarrow> chapter" where
  "setTitlesId (Chapter lv pa ty ti tt nu ch co pr ne) =
     Chapter lv pa ty ti tt nu (map setTitlesId ch) (map eachSection (load co)) pr ne"



definition flatten :: "chapter list \<Rightarrow> chapter list" where
  "flatten chapters = concat (map (\<lambda>chapter. chapter # getChildrenDeep chapter) chapters)"




section \<open>Normalising the markup\<close>

text \<open>
  \<^verbatim>\<open>processHTML\<close> runs five \<^verbatim>\<open>each\<close> loops over the tree of one document. A loop
  selects its elements first and then calls its callback on each of them in document
  order, on the tree as the earlier calls left it. A \<^verbatim>\<open>TypeError\<close> of a callback ends
  the whole function.

  In the first, second and fourth loop a callback puts a new subtree in the place of its
  element, built from copies, and what it detaches never comes back to the document. So
  the document after the loop is a function of the subtree of each selected element that
  is not inside a rewritten one, and these loops are written as a recursion over the
  tree. The third and fifth loop follow further below.
\<close>

fun collect :: "(error + 'a) list \<Rightarrow> error + 'a list" where
  "collect [] = Inr []"
| "collect (Inl e # rs) = Inl e"
| "collect (Inr x # rs) = (case collect rs of Inl e \<Rightarrow> Inl e | Inr xs \<Rightarrow> Inr (x # xs))"

text \<open>
  \<^verbatim>\<open>s.trim()\<close> on the inner HTML of an element, as a function of its children: the
  serialisation of an element neither starts nor ends with white space, so only the text
  nodes at both ends lose characters.
\<close>

definition trimStart :: "string \<Rightarrow> string" where
  "trimStart s = dropWhile isSpace s"

definition trimEnd :: "string \<Rightarrow> string" where
  "trimEnd s = rev (dropWhile isSpace (rev s))"

fun trimNodes :: "(string \<Rightarrow> string) \<Rightarrow> node list \<Rightarrow> node list" where
  "trimNodes f (Text s # ns) = (if f s = [] then trimNodes f ns else Text (f s) # ns)"
| "trimNodes f ns = ns"

definition trim :: "node list \<Rightarrow> node list" where
  "trim ns = rev (trimNodes trimEnd (rev (trimNodes trimStart ns)))"

text \<open>
  First loop, \<^verbatim>\<open>$('.literallayout').each\<close>. \<^verbatim>\<open>$(el).find('p').first().html()\<close> is null
  when the element has no \<^verbatim>\<open>p\<close> below it, and \<^verbatim>\<open>null.trim()\<close> is a
  \<^verbatim>\<open>TypeError\<close>. The callback replaces its element and does not change the subtree it
  detaches, so a matching element nested in another one is still visited with its own
  subtree (and may raise), but what its callback builds stays outside the document.
\<close>

fun literallayout :: "node \<Rightarrow> error + node" where
  "literallayout (Text s) = Inr (Text s)"
| "literallayout (Element name as cs) =
     (if hasClass ''literallayout'' (Element name as cs) then
        (case findSel (hasTag ''p'') (Element name as cs) of
           [] \<Rightarrow> Inl TypeError
         | p # _ \<Rightarrow>
             (case collect (map literallayout cs) of
                Inl e \<Rightarrow> Inl e
              | Inr _ \<Rightarrow>
                  Inr (Element ''pre'' [] [Element ''code'' [] (load (trim (childNodes p)))])))
      else (case collect (map literallayout cs) of
              Inl e \<Rightarrow> Inl e
            | Inr cs' \<Rightarrow> Inr (Element name as cs')))"

text \<open>
  Second loop, \<^verbatim>\<open>$('pre.programlisting, pre.screen').each\<close>. The new \<^verbatim>\<open>code\<close> element
  holds a copy of the children (parsed from their HTML); the children themselves, with
  the matching elements nested in them, are detached.
\<close>

definition isListing :: "node \<Rightarrow> bool" where
  "isListing el =
     (hasTag ''pre'' el \<and> (hasClass ''programlisting'' el \<or> hasClass ''screen'' el))"

fun programlisting :: "node \<Rightarrow> node" where
  "programlisting (Text s) = Text s"
| "programlisting (Element name as cs) =
     (if isListing (Element name as cs) then Element name as [Element ''code'' [] (load cs)]
      else Element name as (map programlisting cs))"

text \<open>
  Fourth loop, \<^verbatim>\<open>$('a.footnote, a.footnoteref').each\<close>. \<^verbatim>\<open>children()\<close> are the element
  children. The \<^verbatim>\<open>sup\<close> goes in front of the link, the link gets a copy of the
  children of the \<^verbatim>\<open>sup\<close> in place of its own, the \<^verbatim>\<open>sup\<close> gets an empty text
  node in place of its children, and the link becomes the last child of the \<^verbatim>\<open>sup\<close>.
  A link that is skipped keeps its children in the document, so the links nested in it
  are visited there.
\<close>

definition isFootnoteRef :: "node \<Rightarrow> bool" where
  "isFootnoteRef el =
     (hasTag ''a'' el \<and> (hasClass ''footnote'' el \<or> hasClass ''footnoteref'' el))"

fun footnoteRef :: "node \<Rightarrow> node" where
  "footnoteRef (Text s) = Text s"
| "footnoteRef (Element name as cs) =
     (if isFootnoteRef (Element name as cs) then
        (case filter isTag cs of
           [child] \<Rightarrow>
             if hasTag ''sup'' child
             then Element ''sup'' (attribs child)
                    [Text [], Element name as (load (childNodes child))]
             else Element name as (map footnoteRef cs)
         | _ \<Rightarrow> Element name as (map footnoteRef cs))
      else Element name as (map footnoteRef cs))"

subsection \<open>The loops that move nodes\<close>

text \<open>
  The third and the fifth loop move nodes between places of the tree, and a callback
  may find the element it is called on changed or detached by an earlier call. For these
  loops every element carries a number that identifies it, and the state of the loop
  holds the document, the nodes that were detached from it, and the next free number.
\<close>

datatype lnode = LText string | LElement nat string attribs "lnode list"

fun unlabel :: "lnode \<Rightarrow> node" where
  "unlabel (LText s) = Text s"
| "unlabel (LElement k name as cs) = Element name as (map unlabel cs)"

fun labelNode :: "nat \<Rightarrow> node \<Rightarrow> lnode \<times> nat"
  and labelNodes :: "nat \<Rightarrow> node list \<Rightarrow> lnode list \<times> nat"
where
  "labelNode k (Text s) = (LText s, k)"
| "labelNode k (Element name as cs) =
     (case labelNodes (Suc k) cs of (cs', k') \<Rightarrow> (LElement k name as cs', k'))"
| "labelNodes k [] = ([], k)"
| "labelNodes k (c # cs) =
     (case labelNode k c of
        (c', k') \<Rightarrow> (case labelNodes k' cs of (cs', k'') \<Rightarrow> (c' # cs', k'')))"

fun hasLabel :: "nat \<Rightarrow> lnode \<Rightarrow> bool" where
  "hasLabel l (LText s) = False"
| "hasLabel l (LElement k name as cs) = (k = l)"

fun labels :: "lnode list \<Rightarrow> nat list" where
  "labels [] = []"
| "labels (LText s # ns) = labels ns"
| "labels (LElement k name as cs # ns) = k # labels ns"

fun lchildren :: "lnode \<Rightarrow> lnode list" where
  "lchildren (LText s) = []"
| "lchildren (LElement k name as cs) = cs"

fun nodes :: "lnode \<Rightarrow> lnode list" where
  "nodes (LText s) = [LText s]"
| "nodes (LElement k name as cs) = LElement k name as cs # concat (map nodes cs)"

fun substNode :: "nat \<Rightarrow> lnode list \<Rightarrow> lnode \<Rightarrow> lnode list" where
  "substNode l new (LText s) = [LText s]"
| "substNode l new (LElement k name as cs) =
     (if k = l then new else [LElement k name as (concat (map (substNode l new) cs))])"

record world =
  document :: "lnode list"
  detached :: "lnode list"
  fresh :: nat

text \<open>Reading and changing the element with a given number, wherever it is.\<close>

definition lookup :: "nat \<Rightarrow> world \<Rightarrow> lnode option" where
  "lookup l w = List.find (hasLabel l) (concat (map nodes (document w @ detached w)))"

definition subst :: "nat \<Rightarrow> lnode list \<Rightarrow> world \<Rightarrow> world" where
  "subst l new w =
     w\<lparr>document := concat (map (substNode l new) (document w)),
       detached := concat (map (substNode l new) (detached w))\<rparr>"

definition attrOf :: "string \<Rightarrow> nat \<Rightarrow> world \<Rightarrow> string option" where
  "attrOf name l w =
     (case lookup l w of Some (LElement k n as cs) \<Rightarrow> attr name as | _ \<Rightarrow> None)"

definition changeAttribs :: "(attribs \<Rightarrow> attribs) \<Rightarrow> nat \<Rightarrow> world \<Rightarrow> world" where
  "changeAttribs f l w =
     (case lookup l w of
        Some (LElement k n as cs) \<Rightarrow> subst l [LElement k n (f as) cs] w
      | _ \<Rightarrow> w)"

text \<open>\<^verbatim>\<open>$(el).find(selector)\<close> and \<^verbatim>\<open>$(el).html()\<close>.\<close>

definition findLabels :: "(node \<Rightarrow> bool) \<Rightarrow> nat \<Rightarrow> world \<Rightarrow> nat list" where
  "findLabels P l w =
     (case lookup l w of
        Some el \<Rightarrow> labels (filter (\<lambda>n. P (unlabel n)) (concat (map nodes (lchildren el))))
      | None \<Rightarrow> [])"

definition htmlOf :: "nat \<Rightarrow> world \<Rightarrow> node list option" where
  "htmlOf l w = (case lookup l w of Some el \<Rightarrow> Some (map unlabel (lchildren el)) | None \<Rightarrow> None)"

text \<open>
  \<^verbatim>\<open>$(el).html(str)\<close>: the children of the element are detached and the element gets
  the nodes that \<open>str\<close> parses to, which are new elements.
\<close>

definition setHtml :: "nat \<Rightarrow> node list \<Rightarrow> world \<Rightarrow> world" where
  "setHtml l new w =
     (case lookup l w of
        Some (LElement k n as cs) \<Rightarrow>
          (case labelNodes (fresh w) (load new) of
             (cs', k') \<Rightarrow>
               (subst l [LElement k n as cs'] w)
                 \<lparr>detached := detached (subst l [LElement k n as cs'] w) @ cs, fresh := k'\<rparr>)
      | _ \<Rightarrow> w)"

text \<open>\<^verbatim>\<open>$('<name></name>')\<close>: a new element, outside the document.\<close>

definition create :: "string \<Rightarrow> world \<Rightarrow> nat \<times> world" where
  "create name w =
     (fresh w, w\<lparr>detached := detached w @ [LElement (fresh w) name [] []],
                 fresh := Suc (fresh w)\<rparr>)"

text \<open>\<^verbatim>\<open>$(el).remove()\<close>.\<close>

definition removeEl :: "nat \<Rightarrow> world \<Rightarrow> world" where
  "removeEl l w =
     (case lookup l w of
        Some el \<Rightarrow> (subst l [] w)\<lparr>detached := detached (subst l [] w) @ [el]\<rparr>
      | None \<Rightarrow> w)"

text \<open>
  \<^verbatim>\<open>$(els).replaceWith($new)\<close>: for each element of \<open>els\<close> in turn, the node
  \<open>new\<close> is taken from where it is and put in the place of the element, which is
  detached. After the loop \<open>new\<close> stands where the last element was.
\<close>

definition replaceOne :: "nat \<Rightarrow> nat \<Rightarrow> world \<Rightarrow> world" where
  "replaceOne new l w =
     (case lookup new w of
        None \<Rightarrow> w
      | Some n \<Rightarrow>
          (case lookup l (subst new [] w) of
             None \<Rightarrow> w
           | Some el \<Rightarrow>
               (subst l [n] (subst new [] w))
                 \<lparr>detached := detached (subst l [n] (subst new [] w)) @ [el]\<rparr>))"

definition replaceWith :: "nat list \<Rightarrow> nat \<Rightarrow> world \<Rightarrow> world" where
  "replaceWith ls new w = foldl (\<lambda>w l. replaceOne new l w) w ls"

text \<open>
  \<^verbatim>\<open>$(target).append($(l))\<close> (\<open>atEnd\<close>) and \<^verbatim>\<open>$(target).prepend($(l))\<close>: the
  element \<open>l\<close> is taken from where it is and becomes the last or the first child of
  \<open>target\<close>.
\<close>

definition insertInto :: "bool \<Rightarrow> nat \<Rightarrow> nat \<Rightarrow> world \<Rightarrow> world" where
  "insertInto atEnd target l w =
     (case lookup l w of
        None \<Rightarrow> w
      | Some n \<Rightarrow>
          (case lookup target (subst l [] w) of
             Some (LElement k name as cs) \<Rightarrow>
               subst target [LElement k name as (if atEnd then cs @ [n] else n # cs)]
                 (subst l [] w)
           | _ \<Rightarrow> w))"

text \<open>\<^verbatim>\<open>$(selector).each(callback)\<close> on a document.\<close>

fun eachLabel :: "(nat \<Rightarrow> world \<Rightarrow> error + world) \<Rightarrow> nat list \<Rightarrow> world \<Rightarrow> error + world" where
  "eachLabel f [] w = Inr w"
| "eachLabel f (l # ls) w = (case f l w of Inl e \<Rightarrow> Inl e | Inr w' \<Rightarrow> eachLabel f ls w')"

definition selectLabels :: "(node \<Rightarrow> bool) \<Rightarrow> lnode list \<Rightarrow> nat list" where
  "selectLabels P ns = labels (filter (\<lambda>n. P (unlabel n)) (concat (map nodes ns)))"

definition eachSelected ::
  "(node \<Rightarrow> bool) \<Rightarrow> (nat \<Rightarrow> world \<Rightarrow> error + world) \<Rightarrow> node list \<Rightarrow> error + node list" where
  "eachSelected P f doc =
     (case labelNodes 0 doc of
        (ns, k) \<Rightarrow>
          (case eachLabel f (selectLabels P ns) \<lparr>document = ns, detached = [], fresh = k\<rparr> of
             Inl e \<Rightarrow> Inl e
           | Inr w \<Rightarrow> Inr (map unlabel (document w))))"

text \<open>
  Third loop, \<^verbatim>\<open>$('div.example').each\<close>. \<^verbatim>\<open>$h6.attr('id', id)\<close> with an undefined
  \<^verbatim>\<open>id\<close> reads the attribute and sets nothing. Without a \<^verbatim>\<open>div.example-title\<close>
  below the element, \<^verbatim>\<open>$divTitle.html()\<close> is null and \<^verbatim>\<open>$h6.html(null)\<close> is a
  \<^verbatim>\<open>TypeError\<close> (it reads a property of its argument).
\<close>

definition isExample :: "node \<Rightarrow> bool" where
  "isExample el = (hasTag ''div'' el \<and> hasClass ''example'' el)"

definition isExampleTitle :: "node \<Rightarrow> bool" where
  "isExampleTitle el = (hasTag ''div'' el \<and> hasClass ''example-title'' el)"

definition exampleCallback :: "nat \<Rightarrow> world \<Rightarrow> error + world" where
  "exampleCallback el w =
     (let id = attrOf ''id'' el w;
          w1 = changeAttribs (removeAttr ''id'') el w;
          (h6, w2) = create ''h6'' w1;
          w3 = (case id of None \<Rightarrow> w2 | Some v \<Rightarrow> changeAttribs (setAttr ''id'' v) h6 w2);
          divTitle = findLabels isExampleTitle el w3
      in (case divTitle of
            [] \<Rightarrow> Inl TypeError
          | t # _ \<Rightarrow>
              (case htmlOf t w3 of
                 None \<Rightarrow> Inl TypeError
               | Some inner \<Rightarrow> Inr (replaceWith divTitle h6 (setHtml h6 inner w3)))))"

text \<open>
  Fifth loop, \<^verbatim>\<open>$('div.footnote').each\<close>. Every call on an empty selection does
  nothing; \<^verbatim>\<open>html()\<close> of an empty selection is null, which the string concatenation
  turns into the text \<^verbatim>\<open>null\<close>. The arrow is kept as the character reference the
  source writes.
\<close>

definition isFootnote :: "node \<Rightarrow> bool" where
  "isFootnote el = (hasTag ''div'' el \<and> hasClass ''footnote'' el)"

definition first :: "nat list \<Rightarrow> nat option" where
  "first ls = (case ls of [] \<Rightarrow> None | l # _ \<Rightarrow> Some l)"

definition htmlOrNull :: "nat option \<Rightarrow> world \<Rightarrow> node list" where
  "htmlOrNull sel w =
     (case sel of
        None \<Rightarrow> [Text ''null'']
      | Some l \<Rightarrow> (case htmlOf l w of None \<Rightarrow> [Text ''null''] | Some ns \<Rightarrow> ns))"

definition footnoteCallback :: "nat \<Rightarrow> world \<Rightarrow> error + world" where
  "footnoteCallback el w =
     (let p = first (findLabels (hasTag ''p'') el w);
          a = first (findLabels (hasTag ''a'') el w);
          sp = first (findLabels (hasTag ''sup'') el w);
          id = attrOf ''id'' el w;
          w1 = (case (id, sp) of
                  (Some v, Some s) \<Rightarrow> changeAttribs (setAttr ''id'' v) s w
                | _ \<Rightarrow> w);
          w2 = changeAttribs (removeAttr ''id'') el w1;
          w3 = (case a of Some l \<Rightarrow> removeEl l w2 | None \<Rightarrow> w2);
          w4 = (case sp of
                  Some s \<Rightarrow> setHtml s (htmlOrNull sp w3 @ htmlOrNull p w3) w3
                | None \<Rightarrow> w3);
          w5 = (case p of Some l \<Rightarrow> setHtml l [] w4 | None \<Rightarrow> w4);
          w6 = (case (p, sp) of (Some l, Some s) \<Rightarrow> insertInto False l s w5 | _ \<Rightarrow> w5);
          w7 = (case a of Some l \<Rightarrow> setHtml l [Text ''&#8593;''] w6 | None \<Rightarrow> w6);
          w8 = (case (sp, a) of (Some s, Some l) \<Rightarrow> insertInto True s l w7 | _ \<Rightarrow> w7)
      in Inr w8)"

text \<open>
  \<^verbatim>\<open>processHTML\<close>, from the tree of the HTML it is given to the tree whose serialisation
  it returns.
\<close>

definition processHTML :: "node list \<Rightarrow> error + node list" where
  "processHTML doc =
     (case collect (map literallayout doc) of
        Inl e \<Rightarrow> Inl e
      | Inr d1 \<Rightarrow>
          (case eachSelected isExample exampleCallback (map programlisting d1) of
             Inl e \<Rightarrow> Inl e
           | Inr d3 \<Rightarrow> eachSelected isFootnote footnoteCallback (map footnoteRef d3)))"


section \<open>What the statements count\<close>

text \<open>
  The ids that the elements of a document carry, in document order, and the pieces a
  document is made of: one piece for every element (its tag and attributes) and one for
  every character of text.
\<close>

fun ids :: "node \<Rightarrow> string list" where
  "ids (Text s) = []"
| "ids (Element name as cs) =
     (case attr ''id'' as of None \<Rightarrow> [] | Some v \<Rightarrow> [v]) @ concat (map ids cs)"

definition idsOf :: "node list \<Rightarrow> string list" where
  "idsOf ns = concat (map ids ns)"

datatype piece = ElementPiece string attribs | CharPiece char

fun pieces :: "node \<Rightarrow> piece multiset" where
  "pieces (Text s) = mset (map CharPiece s)"
| "pieces (Element name as cs) = {#ElementPiece name as#} + sum_list (map pieces cs)"

definition piecesOf :: "node list \<Rightarrow> piece multiset" where
  "piecesOf ns = sum_list (map pieces ns)"



text \<open>
  The raw contents of the chapters of an outline, every chapter followed by its
  descendants.
\<close>

definition fragments :: "chapter list \<Rightarrow> node list" where
  "fragments chapters = concat (map content (flatten chapters))"




definition flatSections :: "node list \<Rightarrow> bool" where
  "flatSections ns =
     list_all (\<lambda>section. findSel (hasTag ''section'') section = [])
       (selectAll (hasTag ''section'') ns)"

fun headerFirst :: "node list \<Rightarrow> bool" where
  "headerFirst [] = True"
| "headerFirst (Text s # ns) = headerFirst ns"
| "headerFirst (Element name as cs # ns) =
     (if isHeader (Element name as cs) then True
      else if selectAll isHeader cs = [] then headerFirst ns
      else name \<noteq> ''section'' \<and> headerFirst cs)"

definition apart :: "node list \<Rightarrow> bool" where
  "apart ns =
     list_all (\<lambda>section. headerFirst (childNodes section)) (selectAll (hasTag ''section'') ns)"

definition sectionKey :: "node \<Rightarrow> attribs \<times> attribs list" where
  "sectionKey section = (attribs section, map attribs (take 1 (findSel isHeader section)))"

text \<open>
  The matching elements that are not inside another matching element, the number of
  \<^verbatim>\<open>code\<close> elements of a document, and the lists of nodes that \<open>mergeText\<close> leaves
  as they are.
\<close>

fun outermost :: "(node \<Rightarrow> bool) \<Rightarrow> node \<Rightarrow> node list" where
  "outermost P (Text s) = []"
| "outermost P (Element name as cs) =
     (if P (Element name as cs) then [Element name as cs] else concat (map (outermost P) cs))"

definition codeCount :: "node list \<Rightarrow> nat" where
  "codeCount ns = length (selectAll (hasTag ''code'') ns)"

fun merged :: "node list \<Rightarrow> bool" where
  "merged [] = True"
| "merged (Text s # ns) = (s \<noteq> [] \<and> (case ns of Text t # ms \<Rightarrow> False | _ \<Rightarrow> True) \<and> merged ns)"
| "merged (Element name as cs # ns) = merged ns"


section \<open>Sample documents\<close>

text \<open>
  Modelled from the spec: \<^verbatim>\<open>utils.idFromRef\<close> is not part of this file. The spec
  derives the anchor id from the fragment of the reference (\<^verbatim>\<open>#ch1\<close> gives \<^verbatim>\<open>ch1\<close>)
  and treats a missing anchor as the empty id. The functions above take it as a
  parameter; the sample runs below use this one.
\<close>

definition idFromRef :: "string option \<Rightarrow> string" where
  "idFromRef ref =
     (case ref of
        None \<Rightarrow> []
      | Some r \<Rightarrow> (case dropWhile (\<lambda>c. c \<noteq> CHR ''#'') r of [] \<Rightarrow> [] | c # cs \<Rightarrow> cs))"

text \<open>
  A table of contents with two chapters and a document that holds both; the first
  entry alone and a document that holds only the second chapter; the nested
  outline of the spec (Chapter 1 with Section 1.1) with its document, alone and behind
  its table of contents.
\<close>

definition tocTwo :: "node list" where
  "tocTwo = [Element ''ul'' [(''class'', ''toc'')]
     [Element ''li'' [] [Element ''span'' [(''class'', ''chapter'')]
        [Element ''a'' [(''href'', ''#ch1'')] [Text ''One'']]],
      Element ''li'' [] [Element ''span'' [(''class'', ''chapter'')]
        [Element ''a'' [(''href'', ''#ch2'')] [Text ''Two'']]]]]"

definition docTwo :: "node list" where
  "docTwo = [Element ''div'' [(''id'', ''ch1'')] [Text ''a''],
             Element ''div'' [(''id'', ''ch2'')] [Text ''b'']]"










definition tocListed :: "node list" where
  \<open>tocListed = [Element ''ul'' [(''class'', ''toc'')]
     [Element ''li'' [] [Element ''span'' [(''class'', ''chapter'')]
        [Element ''a'' [(''href'', ''#x"], *[id="y'')] [Text ''One'']]]]]\<close>

definition docListed :: "node list" where
  "docListed = [Element ''div'' [(''id'', ''x'')]
                  [Text ''A'', Element ''div'' [(''id'', ''y'')] [Text ''B'']]]"

text \<open>
  Sections: with a header that has no id, with a header that has one, and without a
  header.
\<close>

definition sectionPlain :: node where
  "sectionPlain = Element ''section'' [(''id'', ''intro'')]
     [Element ''div'' [] [Element ''h2'' [(''class'', ''title'')] [Text ''Intro'']],
      Element ''h3'' [] [Text ''More'']]"

definition sectionTitled :: node where
  "sectionTitled = Element ''section'' [(''id'', ''intro'')]
     [Element ''h2'' [(''id'', ''t1'')] [Text ''Intro'']]"


text \<open>
  A section with its own title and a section nested in it, and a section whose first
  header lies in a section nested in it, the nested section with an id and without one.
\<close>

definition sectionOutline :: node where
  "sectionOutline = Element ''section'' [(''id'', ''ch'')]
     [Element ''h1'' [] [Text ''Chapter''],
      Element ''section'' [(''id'', ''s1'')] [Element ''h2'' [] [Text ''Section'']]]"

definition sectionNested :: node where
  "sectionNested = Element ''section'' [(''id'', ''o'')]
     [Element ''section'' [(''id'', ''i'')] [Element ''h2'' [] [Text ''T'']],
      Element ''h1'' [] [Text ''O'']]"

definition sectionNestedBare :: node where
  "sectionNestedBare = Element ''section'' [(''id'', ''o'')]
     [Element ''section'' [] [Element ''h2'' [] [Text ''T'']]]"

text \<open>
  Inputs of \<^verbatim>\<open>processHTML\<close>: a program listing that is already wrapped, a literal
  block without a paragraph, the example container of the spec, a footnote reference,
  and a footnote reference whose only child is not a \<^verbatim>\<open>sup\<close> but holds another one.
\<close>

definition listingWrapped :: "node list" where
  "listingWrapped = [Element ''pre'' [(''class'', ''programlisting'')]
                       [Element ''code'' [] [Text ''ls -l'']]]"

definition literalBare :: "node list" where
  "literalBare = [Element ''div'' [(''class'', ''literallayout'')] []]"

definition exampleOne :: "node list" where
  "exampleOne = [Element ''div'' [(''id'', ''ex1''), (''class'', ''example'')]
     [Element ''div'' [(''class'', ''example-title'')] [Text ''Caption''], Text ''Body'']]"

definition footnoteLink :: "node list" where
  "footnoteLink = [Element ''a'' [(''class'', ''footnote'')] [Element ''sup'' [] [Text ''3'']]]"

definition footnoteNested :: "node list" where
  "footnoteNested = [Element ''a'' [(''class'', ''footnote'')]
     [Element ''b'' []
        [Element ''a'' [(''class'', ''footnote'')] [Element ''sup'' [] [Text ''1'']]]]]"


section \<open>The anchor reconciler\<close>

lemma attr_setAttr: "attr name (setAttr name v as) = Some v"
  by (induction as) (auto simp: attr_def)

lemma attr_removeAttr: "attr name (removeAttr name as) = None"
  by (induction as) (auto simp: attr_def removeAttr_def)

lemma setFirst_list:
  assumes node: "\<And>c h hs. c \<in> set ns \<Longrightarrow>
      (select isHeader c = [] \<longrightarrow> setFirst isHeader f c = None) \<and>
      (select isHeader c = h # hs \<longrightarrow>
         (\<exists>c'. setFirst isHeader f c = Some c' \<and>
               select isHeader c' = Element (tagName h) (f (attribs h)) (childNodes h) # hs \<and>
               removeNode isHeader c' = removeNode isHeader c))"
  shows "(selectAll isHeader ns = [] \<longrightarrow> setFirstIn isHeader f ns = None) \<and>
         (selectAll isHeader ns = h # hs \<longrightarrow>
            (\<exists>ns'. setFirstIn isHeader f ns = Some ns' \<and>
               selectAll isHeader ns' = Element (tagName h) (f (attribs h)) (childNodes h) # hs \<and>
               removeSel isHeader ns' = removeSel isHeader ns))"
  using node
proof (induction ns arbitrary: h hs)
  case Nil
  show ?case by (simp add: selectAll_def)
next
  case (Cons c ns)
  have c: "(select isHeader c = [] \<longrightarrow> setFirst isHeader f c = None) \<and>
      (select isHeader c = h # hs \<longrightarrow>
         (\<exists>c'. setFirst isHeader f c = Some c' \<and>
               select isHeader c' = Element (tagName h) (f (attribs h)) (childNodes h) # hs \<and>
               removeNode isHeader c' = removeNode isHeader c))" for h hs
    using Cons.prems [of c h hs] by simp
  have ih: "(selectAll isHeader ns = [] \<longrightarrow> setFirstIn isHeader f ns = None) \<and>
         (selectAll isHeader ns = h # hs \<longrightarrow>
            (\<exists>ns'. setFirstIn isHeader f ns = Some ns' \<and>
               selectAll isHeader ns' = Element (tagName h) (f (attribs h)) (childNodes h) # hs \<and>
               removeSel isHeader ns' = removeSel isHeader ns))" for h hs
    using Cons.IH [of h hs] Cons.prems by simp
  show ?case
  proof (cases "select isHeader c")
    case Nil
    with c have none: "setFirst isHeader f c = None" by simp
    show ?thesis using ih [of h hs] Nil none
      by (auto simp: selectAll_def removeSel_def)
  next
    case (Cons x xs)
    with c [of x xs] obtain c' where c': "setFirst isHeader f c = Some c'"
      "select isHeader c' = Element (tagName x) (f (attribs x)) (childNodes x) # xs"
      "removeNode isHeader c' = removeNode isHeader c" by auto
    show ?thesis using Cons c'
      by (auto simp: selectAll_def removeSel_def)
  qed
qed

lemma setFirst_node:
  "(select isHeader n = [] \<longrightarrow> setFirst isHeader f n = None) \<and>
   (select isHeader n = h # hs \<longrightarrow>
      (\<exists>n'. setFirst isHeader f n = Some n' \<and>
            select isHeader n' = Element (tagName h) (f (attribs h)) (childNodes h) # hs \<and>
            removeNode isHeader n' = removeNode isHeader n))"
proof (induction n arbitrary: h hs)
  case (Text s)
  show ?case by simp
next
  case (Element name as cs)
  have l: "(selectAll isHeader cs = [] \<longrightarrow> setFirstIn isHeader f cs = None) \<and>
         (selectAll isHeader cs = h # hs \<longrightarrow>
            (\<exists>ns'. setFirstIn isHeader f cs = Some ns' \<and>
               selectAll isHeader ns' = Element (tagName h) (f (attribs h)) (childNodes h) # hs \<and>
               removeSel isHeader ns' = removeSel isHeader cs))" for h hs
    by (rule setFirst_list) (use Element.IH in blast)
  show ?case
  proof (cases "isHeader (Element name as cs)")
    case True
    then have "isHeader (Element name (f as) cs)" by (simp add: isHeader_def)
    with True show ?thesis by (auto simp: selectAll_def)
  next
    case False
    then have nh: "\<not> isHeader (Element name as cs')" for cs' by (simp add: isHeader_def)
    show ?thesis using l [of h hs] False nh
      by (auto simp: selectAll_def removeSel_def)
  qed
qed

lemma setFirstIn_header:
  "selectAll isHeader ns = h # hs \<Longrightarrow>
   \<exists>ns'. setFirstIn isHeader f ns = Some ns' \<and>
     selectAll isHeader ns' = Element (tagName h) (f (attribs h)) (childNodes h) # hs \<and>
     removeSel isHeader ns' = removeSel isHeader ns"
  using setFirst_list [of ns f h hs] setFirst_node by blast

lemma sectionCallback_header:
  assumes "findSel isHeader (Element name as cs) = h # hs"
  shows "(truthy (attr ''id'' as) \<and> \<not> truthy (attr ''id'' (attribs h)) \<longrightarrow>
           (\<exists>sectionId cs'.
              attr ''id'' as = Some sectionId \<and>
              sectionCallback (Element name as cs) = Element name (removeAttr ''id'' as) cs' \<and>
              attr ''id'' (removeAttr ''id'' as) = None \<and>
              findSel isHeader (Element name (removeAttr ''id'' as) cs') =
                Element (tagName h) (setAttr ''id'' sectionId (attribs h)) (childNodes h) # hs \<and>
              attr ''id'' (setAttr ''id'' sectionId (attribs h)) = Some sectionId \<and>
              removeSel isHeader cs' = removeSel isHeader cs)) \<and>
         (\<not> truthy (attr ''id'' as) \<or> truthy (attr ''id'' (attribs h)) \<longrightarrow>
            sectionCallback (Element name as cs) = Element name as cs)"
proof -
  have sel: "selectAll isHeader cs = h # hs" using assms by (simp add: findSel_def)
  have first: "firstAttr ''id'' (take 1 (findSel isHeader (Element name as cs))) =
               attr ''id'' (attribs h)"
    using assms by (simp add: firstAttr_def)
  have moved: "\<exists>sectionId cs'.
              attr ''id'' as = Some sectionId \<and>
              sectionCallback (Element name as cs) = Element name (removeAttr ''id'' as) cs' \<and>
              attr ''id'' (removeAttr ''id'' as) = None \<and>
              findSel isHeader (Element name (removeAttr ''id'' as) cs') =
                Element (tagName h) (setAttr ''id'' sectionId (attribs h)) (childNodes h) # hs \<and>
              attr ''id'' (setAttr ''id'' sectionId (attribs h)) = Some sectionId \<and>
              removeSel isHeader cs' = removeSel isHeader cs"
    if t: "truthy (attr ''id'' as)" and n: "\<not> truthy (attr ''id'' (attribs h))"
  proof -
    from t obtain sectionId where sid: "attr ''id'' as = Some sectionId"
      by (auto simp: truthy_def split: option.splits)
    from setFirstIn_header [OF sel, of "setAttr ''id'' sectionId"] obtain cs' where
      cs': "setFirstIn isHeader (setAttr ''id'' sectionId) cs = Some cs'"
        "selectAll isHeader cs' =
           Element (tagName h) (setAttr ''id'' sectionId (attribs h)) (childNodes h) # hs"
        "removeSel isHeader cs' = removeSel isHeader cs" by blast
    have "sectionCallback (Element name as cs) = Element name (removeAttr ''id'' as) cs'"
      using t n sid cs'(1) first by (simp add: sectionCallback_def)
    with sid cs' show ?thesis
      by (simp add: findSel_def attr_setAttr attr_removeAttr)
  qed
  have kept: "sectionCallback (Element name as cs) = Element name as cs"
    if "\<not> truthy (attr ''id'' as) \<or> truthy (attr ''id'' (attribs h))"
    using that first by (auto simp: sectionCallback_def truthy_def split: option.splits)
  from moved kept show ?thesis by blast
qed

lemma tagName_sectionCallback: "tagName (sectionCallback el) = tagName el"
  by (cases el) (auto simp: sectionCallback_def split: option.splits)

lemma setFirstIn_headers:
  "setFirstIn isHeader f ns = Some ns' \<Longrightarrow> selectAll isHeader ns' \<noteq> []"
proof (cases "selectAll isHeader ns")
  case Nil
  assume "setFirstIn isHeader f ns = Some ns'"
  with Nil show ?thesis using setFirst_list [of ns f] setFirst_node by (metis option.distinct(1))
next
  case (Cons h hs)
  assume "setFirstIn isHeader f ns = Some ns'"
  with setFirstIn_header [OF Cons, of f] show ?thesis by auto
qed

lemma setFirstIn_none:
  "selectAll isHeader ns = [] \<Longrightarrow> setFirstIn isHeader f ns = None"
  using setFirst_list [of ns f] setFirst_node by metis

lemma headers_sectionCallback:
  "(findSel isHeader (sectionCallback el) = []) = (findSel isHeader el = [])"
proof (cases "selectAll isHeader (childNodes el)")
  case Nil
  then show ?thesis
    by (cases el) (auto simp: sectionCallback_def findSel_def setFirstIn_none split: option.splits)
next
  case (Cons h hs)
  show ?thesis
    using Cons
    by (cases el) (auto simp: sectionCallback_def findSel_def split: option.splits
        dest: setFirstIn_headers)
qed

lemma eachSection_Element:
  "eachSection (Element name as cs) =
     Element name
       (attribs (if name = ''section'' then sectionCallback (Element name as cs)
                 else Element name as cs))
       (map eachSection
          (childNodes (if name = ''section'' then sectionCallback (Element name as cs)
                       else Element name as cs)))"
  by (simp add: Let_def tagName_sectionCallback)

lemma headers_eachSection:
  "(select isHeader (eachSection n) = []) = (select isHeader n = [])"
proof (induction n rule: eachSection.induct)
  case (1 s)
  show ?case by simp
next
  case (2 name as cs)
  let ?el = "if name = ''section'' then sectionCallback (Element name as cs) else Element name as cs"
  have ih: "(select isHeader (eachSection c) = []) = (select isHeader c = [])"
    if "c \<in> set (childNodes ?el)" for c
    using 2 [OF refl that] .
  have kids: "(selectAll isHeader (map eachSection (childNodes ?el)) = []) =
              (selectAll isHeader (childNodes ?el) = [])"
    using ih by (auto simp: selectAll_def)
  have cb: "(selectAll isHeader (childNodes ?el) = []) = (selectAll isHeader cs = [])"
    using headers_sectionCallback [of "Element name as cs"] by (auto simp: findSel_def)
  have hd: "isHeader (Element name a' cs') = isHeader (Element name as cs)" for a' cs'
    by (simp add: isHeader_def)
  show ?case
    unfolding eachSection_Element
    using kids cb hd by (auto simp: selectAll_def simp del: eachSection.simps)
qed



lemma isSection_Element: "hasTag ''section'' (Element name as cs) = (name = ''section'')"
  by (simp add: hasTag_def)

lemma eachSection_plain:
  "select (hasTag ''section'') n = [] \<Longrightarrow> eachSection n = n"
proof (induction n rule: eachSection.induct)
  case (1 s)
  show ?case by simp
next
  case (2 name as cs)
  from "2.prems" have ns: "name \<noteq> ''section''" and kids: "selectAll (hasTag ''section'') cs = []"
    by (auto simp: isSection_Element selectAll_def split: if_splits)
  have "eachSection c = c" if "c \<in> set cs" for c
    using "2.IH" [OF refl, of c] that ns kids by (auto simp: selectAll_def)
  then have "map eachSection cs = cs" by (simp add: map_idI)
  with ns show ?case by (simp add: Let_def)
qed

lemma setFirst_tags:
  "setFirst P f n = Some n' \<Longrightarrow> length (select (hasTag t) n') = length (select (hasTag t) n)"
  "setFirstIn P f ns = Some ns' \<Longrightarrow>
   length (selectAll (hasTag t) ns') = length (selectAll (hasTag t) ns)"
proof (induction P f n and P f ns arbitrary: n' and ns' rule: setFirst_setFirstIn.induct)
  case (1 P f s)
  then show ?case by simp
next
  case (2 P f name as cs)
  then show ?case
    by (auto simp: hasTag_def selectAll_def split: if_splits option.splits)
next
  case (3 P f)
  then show ?case by simp
next
  case (4 P f c cs)
  then show ?case by (auto simp: selectAll_def split: option.splits)
qed

lemma sectionCallback_sections:
  "selectAll (hasTag ''section'') cs = [] \<Longrightarrow>
   selectAll (hasTag ''section'') (childNodes (sectionCallback (Element name as cs))) = []"
  using setFirst_tags(2) [of isHeader _ cs _ "''section''"]
  by (auto simp: sectionCallback_def split: option.splits)

lemma sectionCallback_Element:
  "sectionCallback (Element name as cs) =
     Element name (attribs (sectionCallback (Element name as cs)))
       (childNodes (sectionCallback (Element name as cs)))"
  by (auto simp: sectionCallback_def split: option.splits)

lemma flatSections_Cons: "flatSections (n # ns) = (flatSections [n] \<and> flatSections ns)"
  by (simp add: flatSections_def selectAll_def)

lemma flatSections_Element:
  "flatSections [Element name as cs] =
     (if name = ''section'' then selectAll (hasTag ''section'') cs = [] else flatSections cs)"
proof (cases "name = ''section''")
  case True
  have "selectAll (hasTag ''section'') [Element name as cs] =
          Element name as cs # selectAll (hasTag ''section'') cs"
    using True by (simp add: selectAll_def isSection_Element)
  then show ?thesis
    using True by (auto simp: flatSections_def findSel_def)
next
  case False
  then have "selectAll (hasTag ''section'') [Element name as cs] =
          selectAll (hasTag ''section'') cs"
    by (simp add: selectAll_def isSection_Element)
  with False show ?thesis by (simp add: flatSections_def)
qed

lemma eachSection_flat:
  "flatSections [n] \<Longrightarrow>
   select (hasTag ''section'') (eachSection n) = map sectionCallback (select (hasTag ''section'') n) \<and>
   removeNode (hasTag ''section'') (eachSection n) = removeNode (hasTag ''section'') n"
proof (induction n)
  case (Text s)
  show ?case by simp
next
  case (Element name as cs)
  show ?case
  proof (cases "name = ''section''")
    case True
    with Element.prems have kids: "selectAll (hasTag ''section'') cs = []"
      by (simp add: flatSections_Element)
    let ?el = "sectionCallback (Element name as cs)"
    from sectionCallback_sections [OF kids, of name as]
    have k': "selectAll (hasTag ''section'') (childNodes ?el) = []" .
    then have "map eachSection (childNodes ?el) = childNodes ?el"
      by (auto simp: selectAll_def intro: map_idI eachSection_plain)
    then have e: "eachSection (Element name as cs) = ?el"
      using True sectionCallback_Element [of name as cs]
      by (simp add: eachSection_Element del: eachSection.simps)
    obtain a' cs' where el: "?el = Element name a' cs'"
      using sectionCallback_Element [of name as cs] by blast
    have s: "select (hasTag ''section'') ?el = [?el]"
      using k' True unfolding el by (simp add: isSection_Element selectAll_def)
    have r: "removeNode (hasTag ''section'') ?el = []"
      using True unfolding el by (simp add: isSection_Element)
    show ?thesis
      using kids True s r unfolding e by (simp add: isSection_Element selectAll_def)
  next
    case False
    with Element.prems have f: "flatSections cs" by (simp add: flatSections_Element)
    have ih: "select (hasTag ''section'') (eachSection c) =
                map sectionCallback (select (hasTag ''section'') c) \<and>
              removeNode (hasTag ''section'') (eachSection c) = removeNode (hasTag ''section'') c"
      if "c \<in> set cs" for c
    proof -
      from f that have "flatSections [c]"
        by (auto simp: flatSections_def selectAll_def list_all_iff)
      with Element.IH that show ?thesis by blast
    qed
    have a: "concat (map (select (hasTag ''section'')) (map eachSection cs)) =
             map sectionCallback (concat (map (select (hasTag ''section'')) cs))"
      using ih by (induction cs) auto
    have b: "concat (map (removeNode (hasTag ''section'')) (map eachSection cs)) =
             concat (map (removeNode (hasTag ''section'')) cs)"
      using ih by (induction cs) auto
    from False a b show ?thesis
      by (simp add: Let_def isSection_Element)
  qed
qed

lemma map_eachSection_flat:
  "flatSections ns \<Longrightarrow>
   selectAll (hasTag ''section'') (map eachSection ns) =
     map sectionCallback (selectAll (hasTag ''section'') ns) \<and>
   removeSel (hasTag ''section'') (map eachSection ns) = removeSel (hasTag ''section'') ns"
proof (induction ns)
  case Nil
  show ?case by (simp add: selectAll_def removeSel_def)
next
  case (Cons n ns)
  from Cons.prems have "flatSections [n]" "flatSections ns"
    using flatSections_Cons [of n ns] by simp_all
  with Cons.IH eachSection_flat [of n] show ?case
    by (simp add: selectAll_def removeSel_def)
qed

lemma isHeader_name: "isHeader (Element name as cs) = isHeader (Element name as' cs')"
  by (simp add: isHeader_def)

lemma isHeader_section: "\<not> isHeader (Element ''section'' as cs)"
  by (simp add: isHeader_def)

lemma take1_append: "xs \<noteq> [] \<Longrightarrow> take 1 (xs @ ys) = take 1 xs"
  by (cases xs) simp_all

lemma select_Element_header:
  "select isHeader (Element name as cs) =
     (if isHeader (Element name as cs) then [Element name as cs] else []) @ selectAll isHeader cs"
  by (simp add: selectAll_def)

lemma headerFirst_eachSection:
  "headerFirst ns \<Longrightarrow>
   map attribs (take 1 (selectAll isHeader (map eachSection ns))) =
   map attribs (take 1 (selectAll isHeader ns))"
proof (induction ns rule: headerFirst.induct)
  case 1
  show ?case by simp
next
  case (2 s ns)
  then show ?case by (simp add: selectAll_def)
next
  case (3 name as cs ns)
  let ?el = "Element name as cs"
  show ?case
  proof (cases "isHeader ?el")
    case True
    then have ns: "name \<noteq> ''section''" using isHeader_section by auto
    then have e: "eachSection ?el = Element name as (map eachSection cs)" by (simp add: Let_def)
    have h: "isHeader (Element name as (map eachSection cs))"
      using True isHeader_name by blast
    show ?thesis
      using True h unfolding list.map e by (simp add: selectAll_def)
  next
    case False
    show ?thesis
    proof (cases "selectAll isHeader cs = []")
      case True
      with False have n: "select isHeader ?el = []" by (simp add: selectAll_def)
      then have n': "select isHeader (eachSection ?el) = []"
        using headers_eachSection by blast
      from "3.prems" False True have "headerFirst ns" by simp
      have a: "selectAll isHeader (map eachSection (?el # ns)) =
               selectAll isHeader (map eachSection ns)"
        by (simp only: selectAll_def list.map concat.simps n' append_Nil)
      have b: "selectAll isHeader (?el # ns) = selectAll isHeader ns"
        by (simp only: selectAll_def list.map concat.simps n append_Nil)
      from "3.IH"(1) [OF False True \<open>headerFirst ns\<close>] show ?thesis
        unfolding a b .
    next
      case nonempty: False
      from "3.prems" False nonempty have ns: "name \<noteq> ''section''" and hf: "headerFirst cs"
        by simp_all
      from ns have e: "eachSection ?el = Element name as (map eachSection cs)"
        by (simp add: Let_def)
      have nh: "\<not> isHeader (Element name as (map eachSection cs))"
        using False isHeader_name by blast
      have ne': "selectAll isHeader (map eachSection cs) \<noteq> []"
      proof -
        from nonempty have "select isHeader ?el \<noteq> []" using False by (simp add: selectAll_def)
        then have "select isHeader (eachSection ?el) \<noteq> []" using headers_eachSection by blast
        then show ?thesis unfolding e using nh by (simp add: selectAll_def)
      qed
      have a: "selectAll isHeader (map eachSection (?el # ns)) =
               selectAll isHeader (map eachSection cs) @ selectAll isHeader (map eachSection ns)"
        unfolding list.map e using nh by (simp add: selectAll_def)
      have b: "selectAll isHeader (?el # ns) = selectAll isHeader cs @ selectAll isHeader ns"
        using False by (simp add: selectAll_def)
      from "3.IH"(2) [OF False nonempty hf] show ?thesis
        unfolding a b take1_append [OF ne'] take1_append [OF nonempty] .
    qed
  qed
qed

lemma setFirstIn_headerFirst:
  "headerFirst ns \<Longrightarrow> setFirstIn isHeader f ns = Some ns' \<Longrightarrow>
   selectAll (hasTag ''section'') ns' = selectAll (hasTag ''section'') ns \<and> headerFirst ns'"
proof (induction ns arbitrary: ns' rule: headerFirst.induct)
  case 1
  then show ?case by simp
next
  case (2 s ns)
  then show ?case by (auto simp: selectAll_def split: option.splits)
next
  case (3 name as cs ns)
  let ?el = "Element name as cs"
  show ?case
  proof (cases "isHeader ?el")
    case True
    with "3.prems"(2) have ns': "ns' = Element name (f as) cs # ns" by simp
    have h: "isHeader (Element name (f as) cs)" using True isHeader_name by blast
    have nsec: "name \<noteq> ''section''" using True isHeader_section by auto
    show ?thesis
      unfolding ns' using h nsec by (simp add: selectAll_def isSection_Element)
  next
    case False
    show ?thesis
    proof (cases "selectAll isHeader cs = []")
      case True
      then have none: "setFirstIn isHeader f cs = None" by (rule setFirstIn_none)
      with False "3.prems"(2) obtain ns'' where
        ns'': "setFirstIn isHeader f ns = Some ns''" and ns': "ns' = ?el # ns''"
        by (auto split: option.splits)
      from "3.prems"(1) False True have "headerFirst ns" by simp
      from "3.IH"(1) [OF False True this ns''] show ?thesis
        unfolding ns' using False True by (simp add: selectAll_def)
    next
      case nonempty: False
      from "3.prems"(1) False nonempty have nsec: "name \<noteq> ''section''"
        and hf: "headerFirst cs" by simp_all
      from nonempty obtain h hs where "selectAll isHeader cs = h # hs"
        by (cases "selectAll isHeader cs") auto
      from setFirstIn_header [OF this, of f] obtain cs' where
        cs': "setFirstIn isHeader f cs = Some cs'" by blast
      with False "3.prems"(2) have ns': "ns' = Element name as cs' # ns" by simp
      from "3.IH"(2) [OF False nonempty hf cs'] have
        s: "selectAll (hasTag ''section'') cs' = selectAll (hasTag ''section'') cs"
        and h: "headerFirst cs'" by simp_all
      have nh: "\<not> isHeader (Element name as cs')" using False isHeader_name by blast
      have ne: "selectAll isHeader cs' \<noteq> []" using cs' by (rule setFirstIn_headers)
      have "selectAll (hasTag ''section'') ns' = selectAll (hasTag ''section'') (?el # ns)"
        unfolding ns' using s nsec by (simp add: selectAll_def isSection_Element)
      moreover have "headerFirst ns'"
        unfolding ns' using h nh ne nsec by simp
      ultimately show ?thesis by simp
    qed
  qed
qed

lemma sectionCallback_cases:
  "(\<exists>a'. sectionCallback (Element name as cs) = Element name a' cs) \<or>
   (\<exists>a' sectionId cs'. sectionCallback (Element name as cs) = Element name a' cs' \<and>
      setFirstIn isHeader (setAttr ''id'' sectionId) cs = Some cs')"
  by (auto simp: sectionCallback_def split: option.splits)

lemma apart_Cons: "apart (n # ns) = (apart [n] \<and> apart ns)"
  by (simp add: apart_def selectAll_def)

lemma apart_Element:
  "apart [Element name as cs] = ((name = ''section'' \<longrightarrow> headerFirst cs) \<and> apart cs)"
  by (simp add: apart_def selectAll_def isSection_Element)

lemma eachSection_apart:
  "apart [n] \<Longrightarrow>
   map sectionKey (select (hasTag ''section'') (eachSection n)) =
   map (\<lambda>section. sectionKey (sectionCallback section)) (select (hasTag ''section'') n)"
proof (induction n rule: eachSection.induct)
  case (1 s)
  show ?case by simp
next
  case (2 name as cs)
  let ?el = "if name = ''section'' then sectionCallback (Element name as cs) else Element name as cs"
  have ih: "map sectionKey (select (hasTag ''section'') (eachSection c)) =
            map (\<lambda>section. sectionKey (sectionCallback section)) (select (hasTag ''section'') c)"
    if "c \<in> set (childNodes ?el)" "apart [c]" for c
    using "2.IH" [OF refl that] .
  have kids: "map sectionKey (selectAll (hasTag ''section'') (map eachSection ns)) =
      map (\<lambda>section. sectionKey (sectionCallback section)) (selectAll (hasTag ''section'') ns)"
    if "set ns \<subseteq> set (childNodes ?el)" "apart ns" for ns
    using that
  proof (induction ns)
    case Nil
    show ?case by (simp add: selectAll_def)
  next
    case (Cons c ns)
    from Cons.prems have "c \<in> set (childNodes ?el)" "apart [c]" "apart ns"
      "set ns \<subseteq> set (childNodes ?el)"
      using apart_Cons [of c ns] by auto
    with Cons.IH ih [of c] show ?case
      by (simp add: selectAll_def del: eachSection.simps)
  qed
  from "2.prems" have hf: "name = ''section'' \<longrightarrow> headerFirst cs" and ap: "apart cs"
    by (simp_all add: apart_Element)
  show ?case
  proof (cases "name = ''section''")
    case False
    then have e: "eachSection (Element name as cs) = Element name as (map eachSection cs)"
      by (simp add: Let_def)
    from False kids [of cs] ap show ?thesis
      unfolding e by (simp add: selectAll_def isSection_Element del: eachSection.simps)
  next
    case True
    with hf have hf: "headerFirst cs" by simp
    obtain a' cs' where cb: "sectionCallback (Element name as cs) = Element name a' cs'"
      and s: "selectAll (hasTag ''section'') cs' = selectAll (hasTag ''section'') cs"
      and h: "headerFirst cs'"
      using sectionCallback_cases [of name as cs] hf setFirstIn_headerFirst [OF hf]
      by blast
    have ap': "apart cs'" using ap s by (simp add: apart_def)
    have e: "eachSection (Element name as cs) = Element name a' (map eachSection cs')"
      using True cb by (simp add: eachSection_Element del: eachSection.simps)
    have k: "sectionKey (Element name a' (map eachSection cs')) =
             sectionKey (sectionCallback (Element name as cs))"
      using headerFirst_eachSection [OF h] by (simp add: sectionKey_def findSel_def cb)
    have t: "map sectionKey (selectAll (hasTag ''section'') (map eachSection cs')) =
      map (\<lambda>section. sectionKey (sectionCallback section)) (selectAll (hasTag ''section'') cs)"
      using kids [of cs'] ap' True cb s by simp
    have l: "select (hasTag ''section'') (Element name a' (map eachSection cs')) =
             Element name a' (map eachSection cs') #
               selectAll (hasTag ''section'') (map eachSection cs')"
      using True by (simp add: selectAll_def isSection_Element)
    have r: "select (hasTag ''section'') (Element name as cs) =
             Element name as cs # selectAll (hasTag ''section'') cs"
      using True by (simp add: selectAll_def isSection_Element)
    show ?thesis
      unfolding e l r using k t by simp
  qed
qed

lemma eachSection_outside:
  "removeNode (hasTag ''section'') (eachSection n) = removeNode (hasTag ''section'') n"
proof (induction n rule: eachSection.induct)
  case (1 s)
  show ?case by simp
next
  case (2 name as cs)
  show ?case
  proof (cases "name = ''section''")
    case True
    then show ?thesis
      unfolding eachSection_Element by (simp add: isSection_Element del: eachSection.simps)
  next
    case False
    then have e: "eachSection (Element name as cs) = Element name as (map eachSection cs)"
      by (simp add: Let_def)
    have "removeNode (hasTag ''section'') (eachSection c) = removeNode (hasTag ''section'') c"
      if "c \<in> set cs" for c
      using "2.IH" [OF refl, of c] that False by simp
    then have "concat (map (removeNode (hasTag ''section'')) (map eachSection cs)) =
               concat (map (removeNode (hasTag ''section'')) cs)"
      by (induction cs) auto
    with False show ?thesis unfolding e by (simp add: isSection_Element)
  qed
qed

lemma map_eachSection_apart:
  "apart ns \<Longrightarrow>
   map sectionKey (selectAll (hasTag ''section'') (map eachSection ns)) =
   map (\<lambda>section. sectionKey (sectionCallback section)) (selectAll (hasTag ''section'') ns)"
proof (induction ns)
  case Nil
  show ?case by (simp add: selectAll_def)
next
  case (Cons n ns)
  from Cons.prems have "apart [n]" "apart ns" using apart_Cons [of n ns] by simp_all
  with Cons.IH eachSection_apart [of n] show ?case
    by (simp add: selectAll_def del: eachSection.simps)
qed

lemma map_eachSection_outside:
  "removeSel (hasTag ''section'') (map eachSection ns) = removeSel (hasTag ''section'') ns"
  using eachSection_outside by (induction ns) (auto simp: removeSel_def simp del: eachSection.simps)


text \<open>
  C9 as stated fails where the first header of a section lies in a section nested in it.
  The outer section is visited first and gives the header its id; the nested section then
  finds the header with an id and keeps its own, although in the fragment it carried an
  id and its first header had none. And a nested section without an id has its first
  header changed all the same.
\<close>

theorem section_id_to_header_counterexample:
  "selectAll (hasTag ''section'') [sectionNested] =
     [sectionNested, Element ''section'' [(''id'', ''i'')] [Element ''h2'' [] [Text ''T'']]] \<and>
   content (setTitlesId (Chapter 0 None None ''c'' ''C'' 1 [] [sectionNested] None None)) =
     [Element ''section'' []
        [Element ''section'' [(''id'', ''i'')] [Element ''h2'' [(''id'', ''o'')] [Text ''T'']],
         Element ''h1'' [] [Text ''O'']]] \<and>
   selectAll (hasTag ''section'') [sectionNestedBare] =
     [sectionNestedBare, Element ''section'' [] [Element ''h2'' [] [Text ''T'']]] \<and>
   content (setTitlesId (Chapter 0 None None ''c'' ''C'' 1 [] [sectionNestedBare] None None)) =
     [Element ''section'' []
        [Element ''section'' [] [Element ''h2'' [(''id'', ''o'')] [Text ''T'']]]]"
  by code_simp

text \<open>
  C9, amended. Take a chapter content in which the first header of every section lies in
  no section nested in it. After \<^verbatim>\<open>setTitlesId\<close> every section of the content, in
  document order, has the attributes, and its first header has the attributes, that the
  callback gives them on the section as it was before. Nothing outside the sections
  changes, whatever the content; and in a content in which no section lies inside
  another, every section is what the callback makes of it. On a section whose first
  header is \<open>h\<close> the callback does this: when the section carries an id (a non-empty
  one) and \<open>h\<close> does not, the id is removed from the section and set on \<open>h\<close>: the
  headers of the section are then \<open>h\<close> with the id, followed by the other headers as
  they were, and nothing outside the headers has changed. When the section carries no
  id, or \<open>h\<close> has one, the section is returned as it is.
\<close>

theorem section_id_to_header:
  "(apart (load co) \<longrightarrow>
      map sectionKey (selectAll (hasTag ''section'')
          (content (setTitlesId (Chapter lv pa ty ti tt nu ch co pr ne)))) =
        map (\<lambda>section. sectionKey (sectionCallback section))
          (selectAll (hasTag ''section'') (load co))) \<and>
   removeSel (hasTag ''section'')
       (content (setTitlesId (Chapter lv pa ty ti tt nu ch co pr ne))) =
     removeSel (hasTag ''section'') (load co) \<and>
   (flatSections (load co) \<longrightarrow>
      selectAll (hasTag ''section'')
          (content (setTitlesId (Chapter lv pa ty ti tt nu ch co pr ne))) =
        map sectionCallback (selectAll (hasTag ''section'') (load co))) \<and>
   (findSel isHeader (Element name as cs) = h # hs \<longrightarrow>
      (truthy (attr ''id'' as) \<and> \<not> truthy (attr ''id'' (attribs h)) \<longrightarrow>
         (\<exists>sectionId cs'.
            attr ''id'' as = Some sectionId \<and>
            sectionCallback (Element name as cs) = Element name (removeAttr ''id'' as) cs' \<and>
            attr ''id'' (removeAttr ''id'' as) = None \<and>
            findSel isHeader (Element name (removeAttr ''id'' as) cs') =
              Element (tagName h) (setAttr ''id'' sectionId (attribs h)) (childNodes h) # hs \<and>
            attr ''id'' (setAttr ''id'' sectionId (attribs h)) = Some sectionId \<and>
            removeSel isHeader cs' = removeSel isHeader cs)) \<and>
      (\<not> truthy (attr ''id'' as) \<or> truthy (attr ''id'' (attribs h)) \<longrightarrow>
         sectionCallback (Element name as cs) = Element name as cs))"
proof -
  let ?out = "content (setTitlesId (Chapter lv pa ty ti tt nu ch co pr ne))"
  have out: "?out = map eachSection (load co)" by simp
  have a: "map sectionKey (selectAll (hasTag ''section'') ?out) =
        map (\<lambda>section. sectionKey (sectionCallback section))
          (selectAll (hasTag ''section'') (load co))"
    if "apart (load co)"
    unfolding out using that by (rule map_eachSection_apart)
  have b: "removeSel (hasTag ''section'') ?out = removeSel (hasTag ''section'') (load co)"
    unfolding out by (rule map_eachSection_outside)
  have c: "selectAll (hasTag ''section'') ?out =
        map sectionCallback (selectAll (hasTag ''section'') (load co))"
    if "flatSections (load co)"
    unfolding out using map_eachSection_flat [OF that] by simp
  from a b c sectionCallback_header [of name as cs h hs] show ?thesis by blast
qed

theorem section_id_to_header_witness:
  "apart (load [sectionOutline, sectionTitled]) \<and>
   content (setTitlesId
      (Chapter 0 None None ''c'' ''C'' 1 [] [sectionOutline, sectionTitled] None None)) =
     [Element ''section'' []
        [Element ''h1'' [(''id'', ''ch'')] [Text ''Chapter''],
         Element ''section'' [] [Element ''h2'' [(''id'', ''s1'')] [Text ''Section'']]],
      sectionTitled] \<and>
   flatSections (load [sectionPlain, sectionTitled]) \<and>
   content (setTitlesId
      (Chapter 0 None None ''c'' ''C'' 1 [] [sectionPlain, sectionTitled] None None)) =
     [Element ''section'' []
       [Element ''div'' []
          [Element ''h2'' [(''class'', ''title''), (''id'', ''intro'')] [Text ''Intro'']],
        Element ''h3'' [] [Text ''More'']],
      sectionTitled] \<and>
   sectionCallback sectionTitled = sectionTitled"
proof -
  have g: "apart (load [sectionOutline, sectionTitled])"
    by code_simp
  have f: "flatSections (load [sectionPlain, sectionTitled])"
    by code_simp
  have f2: "findSel isHeader (Element ''section'' [(''id'', ''intro'')]
     [Element ''h2'' [(''id'', ''t1'')] [Text ''Intro'']]) =
      Element ''h2'' [(''id'', ''t1'')] [Text ''Intro''] # []"
    by (simp add: findSel_def selectAll_def isHeader_def)
  have t3: "truthy (attr ''id'' (attribs (Element ''h2'' [(''id'', ''t1'')] [Text ''Intro''])))"
    by (simp add: truthy_def attr_def)
  from section_id_to_header [where co = "[sectionOutline, sectionTitled]" and lv = 0
      and pa = None and ty = None and ti = "''c''" and tt = "''C''" and nu = 1 and ch = "[]"
      and pr = None and ne = None, THEN conjunct1, THEN mp, OF g]
  have a: "map sectionKey (selectAll (hasTag ''section'')
      (content (setTitlesId
         (Chapter 0 None None ''c'' ''C'' 1 [] [sectionOutline, sectionTitled] None None)))) =
      map (\<lambda>section. sectionKey (sectionCallback section))
        (selectAll (hasTag ''section'') (load [sectionOutline, sectionTitled]))" .
  from section_id_to_header [where co = "[sectionPlain, sectionTitled]" and lv = 0
      and pa = None and ty = None and ti = "''c''" and tt = "''C''" and nu = 1 and ch = "[]"
      and pr = None and ne = None, THEN conjunct2, THEN conjunct2, THEN conjunct1, THEN mp, OF f]
  have b: "selectAll (hasTag ''section'')
      (content (setTitlesId
         (Chapter 0 None None ''c'' ''C'' 1 [] [sectionPlain, sectionTitled] None None))) =
      map sectionCallback (selectAll (hasTag ''section'') (load [sectionPlain, sectionTitled]))" .
  from section_id_to_header [THEN conjunct2, THEN conjunct2, THEN conjunct2, THEN mp, OF f2] t3
  have c: "sectionCallback sectionTitled = sectionTitled"
    unfolding sectionTitled_def by blast
  have d: "content (setTitlesId
      (Chapter 0 None None ''c'' ''C'' 1 [] [sectionOutline, sectionTitled] None None)) =
     [Element ''section'' []
        [Element ''h1'' [(''id'', ''ch'')] [Text ''Chapter''],
         Element ''section'' [] [Element ''h2'' [(''id'', ''s1'')] [Text ''Section'']]],
      sectionTitled]"
    by code_simp
  have e: "content (setTitlesId
      (Chapter 0 None None ''c'' ''C'' 1 [] [sectionPlain, sectionTitled] None None)) =
     [Element ''section'' []
       [Element ''div'' []
          [Element ''h2'' [(''class'', ''title''), (''id'', ''intro'')] [Text ''Intro'']],
        Element ''h3'' [] [Text ''More'']],
      sectionTitled]"
    by code_simp
  from g f a b c d e show ?thesis by simp
qed




section \<open>Sibling links\<close>

declare parseList.simps [simp del]

lemma setSiblings_length: "length (setSiblings chapters) = length chapters"
  by (simp add: setSiblings_def)

lemma setSiblings_nth:
  "i < length chapters \<Longrightarrow>
   setSiblings chapters ! i =
     (case chapters ! i of
        Chapter lv pa ty ti tt nu ch co pr ne \<Rightarrow>
          Chapter lv pa ty ti tt nu ch co
            (if i > 0 then Some (i - 1) else pr)
            (if i + 1 < length chapters then Some (i + 1) else ne))"
  by (cases "chapters ! i") (simp add: setSiblings_def)

lemma parseItems_step:
  assumes "extractTOCTitleInfo f li = (ty, ti, tt)"
    and "parseList other f (childrenSel (hasTag ''ul'') [li]) (lv + 1) (Some ti) doc =
           Inr (sub, doc1)"
    and "extractHTML other (getChapterSelector ti) doc1 = Inr (co, doc2)"
  shows "parseItems other f (li # lis) lv pa chapters doc =
       parseItems other f lis lv pa
         (chapters @ [Chapter lv pa ty ti tt (length chapters + 1) sub co None None]) doc2"
  by (simp only: parseItems.simps assms prod.case sum.case)

lemma parseItems_Cons:
  assumes "parseItems other f (li # lis) lv pa chapters doc = Inr r"
  obtains ty ti tt sub doc1 co doc2 where
    "extractTOCTitleInfo f li = (ty, ti, tt)"
    "parseList other f (childrenSel (hasTag ''ul'') [li]) (lv + 1) (Some ti) doc =
       Inr (sub, doc1)"
    "extractHTML other (getChapterSelector ti) doc1 = Inr (co, doc2)"
    "parseItems other f lis lv pa
       (chapters @ [Chapter lv pa ty ti tt (length chapters + 1) sub co None None]) doc2 =
     Inr r"
proof -
  obtain ty ti tt where info: "extractTOCTitleInfo f li = (ty, ti, tt)"
    by (cases "extractTOCTitleInfo f li") auto
  let ?sub = "parseList other f (childrenSel (hasTag ''ul'') [li]) (lv + 1) (Some ti) doc"
  have "\<exists>sub doc1. ?sub = Inr (sub, doc1)"
  proof (cases ?sub)
    case (Inl e)
    have "parseItems other f (li # lis) lv pa chapters doc = Inl e"
      by (simp only: parseItems.simps info Inl prod.case sum.case)
    with assms show ?thesis by simp
  next
    case (Inr p)
    then show ?thesis by (cases p) simp
  qed
  then obtain sub doc1 where sub: "?sub = Inr (sub, doc1)" by blast
  let ?co = "extractHTML other (getChapterSelector ti) doc1"
  have "\<exists>co doc2. ?co = Inr (co, doc2)"
  proof (cases ?co)
    case (Inl e)
    have "parseItems other f (li # lis) lv pa chapters doc = Inl e"
      by (simp only: parseItems.simps info sub Inl prod.case sum.case)
    with assms show ?thesis by simp
  next
    case (Inr p)
    then show ?thesis by (cases p) simp
  qed
  then obtain co doc2 where co: "?co = Inr (co, doc2)" by blast
  from assms parseItems_step [OF info sub co, of lis pa chapters]
  have "parseItems other f lis lv pa
       (chapters @ [Chapter lv pa ty ti tt (length chapters + 1) sub co None None]) doc2 =
     Inr r" by simp
  with info sub co that show thesis by blast
qed

lemma parseList_Inr:
  assumes "parseList other f ul lv pa doc = Inr (chapters, doc')"
  obtains items where
    "parseItems other f (childrenSel (hasTag ''li'') ul) lv pa [] doc = Inr (items, doc')"
    "chapters = setSiblings items"
  using assms by (auto simp: parseList.simps split: sum.splits prod.splits)

lemma parseItems_unlinked:
  "parseItems other f lis lv pa chapters doc = Inr (items, doc') \<Longrightarrow>
   \<forall>c \<in> set chapters. previous c = None \<and> next' c = None \<Longrightarrow>
   \<forall>c \<in> set items. previous c = None \<and> next' c = None"
proof (induction lis arbitrary: chapters doc)
  case Nil
  then show ?case by simp
next
  case (Cons li lis)
  from Cons.prems(1) obtain ty ti tt sub co doc2 where step:
    "parseItems other f lis lv pa
       (chapters @ [Chapter lv pa ty ti tt (length chapters + 1) sub co None None]) doc2 =
     Inr (items, doc')"
    by (rule parseItems_Cons)
  have "\<forall>c \<in> set (chapters @ [Chapter lv pa ty ti tt (length chapters + 1) sub co None None]).
          previous c = None \<and> next' c = None"
    using Cons.prems(2) by simp
  from Cons.IH [OF step this] show ?case .
qed

text \<open>
  C8. In the array that \<^verbatim>\<open>parseList\<close> returns, the \<^verbatim>\<open>next\<close> of every chapter but the
  last is its right neighbour, whose \<^verbatim>\<open>previous\<close> is that chapter again; the first
  chapter has no \<^verbatim>\<open>previous\<close> and the last chapter has no \<^verbatim>\<open>next\<close>.
\<close>

theorem sibling_chain:
  assumes "parseList other f ul lv pa doc = Inr (chapters, doc')"
  shows "(\<forall>i. Suc i < length chapters \<longrightarrow>
            next' (chapters ! i) = Some (Suc i) \<and> previous (chapters ! Suc i) = Some i) \<and>
         (chapters \<noteq> [] \<longrightarrow> previous (hd chapters) = None \<and> next' (last chapters) = None)"
proof -
  from assms obtain items where
    items: "parseItems other f (childrenSel (hasTag ''li'') ul) lv pa [] doc = Inr (items, doc')"
    and ch: "chapters = setSiblings items"
    by (rule parseList_Inr)
  have un: "\<forall>c \<in> set items. previous c = None \<and> next' c = None"
    using parseItems_unlinked [OF items] by simp
  have len: "length chapters = length items" by (simp add: ch setSiblings_length)
  have a: "next' (chapters ! i) = Some (Suc i) \<and> previous (chapters ! Suc i) = Some i"
    if "Suc i < length chapters" for i
    using that len by (cases "items ! i"; cases "items ! Suc i") (simp add: ch setSiblings_nth)
  have b: "previous (hd chapters) = None \<and> next' (last chapters) = None" if "chapters \<noteq> []"
  proof -
    from that len have ne: "items \<noteq> []" by auto
    then have 0: "0 < length items" by simp
    have h: "previous (items ! 0) = None" using un 0 by (metis nth_mem)
    have l: "next' (items ! (length items - 1)) = None" using un 0
      by (metis nth_mem diff_less zero_less_one)
    have "previous (chapters ! 0) = None"
      using h 0 by (cases "items ! 0") (simp add: ch setSiblings_nth)
    moreover have "next' (chapters ! (length items - 1)) = None"
      using l 0 by (cases "items ! (length items - 1)") (simp add: ch setSiblings_nth)
    ultimately show ?thesis
      using that len by (simp add: hd_conv_nth last_conv_nth)
  qed
  from a b show ?thesis by blast
qed

lemma parseList_tocTwo:
  "parseList other idFromRef tocTwo 0 None docTwo =
     Inr ([Chapter 0 None (Some ''chapter'') ''ch1'' ''One'' 1 []
         [Element ''div'' [(''id'', ''ch1'')] [Text ''a'']] None (Some 1),
       Chapter 0 None (Some ''chapter'') ''ch2'' ''Two'' 2 []
         [Element ''div'' [(''id'', ''ch2'')] [Text ''b'']] (Some 0) None], [])"
  by code_simp

theorem sibling_chain_witness:
  "\<forall>other. (case parseList other idFromRef tocTwo 0 None docTwo of
      Inl e \<Rightarrow> False
    | Inr (chapters, doc') \<Rightarrow>
        chapters \<noteq> [] \<and>
        next' (chapters ! 0) = Some 1 \<and> previous (chapters ! 1) = Some 0 \<and>
        previous (hd chapters) = None \<and> next' (last chapters) = None)"
  using sibling_chain [OF parseList_tocTwo] unfolding parseList_tocTwo by simp

section \<open>Missing anchors\<close>

declare idSelector.simps [simp del]

lemma idsOf_simps [simp]:
  "idsOf [] = []" "idsOf (n # ns) = ids n @ idsOf ns" "idsOf (ns @ ms) = idsOf ns @ idsOf ms"
  by (simp_all add: idsOf_def)

lemma piecesOf_simps [simp]:
  "piecesOf [] = {#}" "piecesOf (n # ns) = pieces n + piecesOf ns"
  "piecesOf (ns @ ms) = piecesOf ns + piecesOf ms"
  by (simp_all add: piecesOf_def)







lemma selectAll_simps [simp]:
  "selectAll P [] = []" "selectAll P (n # ns) = select P n @ selectAll P ns"
  by (simp_all add: selectAll_def)

lemma removeSel_simps [simp]:
  "removeSel P [] = []" "removeSel P (n # ns) = removeNode P n @ removeSel P ns"
  by (simp_all add: removeSel_def)

lemma select_Element:
  "select P (Element name as cs) =
     (if P (Element name as cs) then [Element name as cs] else []) @ selectAll P cs"
  by (simp add: selectAll_def)



lemma pieces_Element:
  "pieces (Element name as cs) = {#ElementPiece name as#} + piecesOf cs"
  by (simp add: piecesOf_def)

declare select.simps(2) [simp del] removeNode.simps(2) [simp del] ids.simps(2) [simp del]
  pieces.simps(2) [simp del]



























section \<open>The fragments and the document\<close>

lemma flatten_simps [simp]:
  "flatten [] = []" "flatten (c # cs) = c # getChildrenDeep c @ flatten cs"
  "flatten (cs @ ds) = flatten cs @ flatten ds"
  by (simp_all add: flatten_def)

lemma getChildrenDeep_flatten: "getChildrenDeep c = flatten (children c)"
  by (cases c) (simp add: flatten_def)

lemma fragments_simps [simp]:
  "fragments [] = []"
  "fragments (cs @ ds) = fragments cs @ fragments ds"
  "fragments [c] = content c @ fragments (children c)"
  by (simp_all add: fragments_def getChildrenDeep_flatten)












text \<open>
  The anchor ids have to be plain. The selector of the id \<^verbatim>\<open>x"], *[id="y\<close> is the
  list \<^verbatim>\<open>*[id="x"], *[id="y"]\<close>; it matches an element and an element inside it, and
  the content of the chapter holds the inner element twice.
\<close>

lemma fragments_selector_list:
  \<open>distinct (idsOf docListed) \<and>
   (\<forall>other. \<exists>c.
      parseList other idFromRef tocListed 0 None docListed = Inr ([c], []) \<and>
      html (content c) = ''<div id="x">A<div id="y">B</div></div><div id="y">B</div>'' \<and>
      piecesOf (fragments [c]) \<noteq> piecesOf docListed)\<close>
proof (intro conjI allI)
  let ?co = "[Element ''div'' [(''id'', ''x'')]
                [Text ''A'', Element ''div'' [(''id'', ''y'')] [Text ''B'']],
              Element ''div'' [(''id'', ''y'')] [Text ''B'']]"
  show "distinct (idsOf docListed)"
    by code_simp
  have p: \<open>parseList other idFromRef tocListed 0 None docListed =
     Inr ([Chapter 0 None (Some ''chapter'') ''x"], *[id="y'' ''One'' 1 [] ?co None None], [])\<close>
    for other
    by code_simp
  have h: \<open>html ?co = ''<div id="x">A<div id="y">B</div></div><div id="y">B</div>''\<close>
    by (simp add: html_def render_attribs_def singleTag_def)
  have c1: "count (piecesOf docListed) (CharPiece CHR ''B'') = 1"
    by (simp add: docListed_def pieces_Element)
  have c2: "count (piecesOf ?co) (CharPiece CHR ''B'') = 2"
    by (simp add: pieces_Element)
  have n: "piecesOf ?co \<noteq> piecesOf docListed"
  proof
    assume "piecesOf ?co = piecesOf docListed"
    then have "count (piecesOf ?co) (CharPiece CHR ''B'') =
               count (piecesOf docListed) (CharPiece CHR ''B'')"
      by (rule arg_cong)
    then have "(2 :: nat) = 1" by (simp only: c1 c2)
    then show False by simp
  qed
  have f: "fragments [Chapter lv pa ty ti tt nu [] ?co pr ne] = ?co" for lv pa ty ti tt nu pr ne
    by (simp add: fragments_def flatten_def)
  from p h n f show \<open>\<exists>c.
      parseList other idFromRef tocListed 0 None docListed = Inr ([c], []) \<and>
      html (content c) = ''<div id="x">A<div id="y">B</div></div><div id="y">B</div>'' \<and>
      piecesOf (fragments [c]) \<noteq> piecesOf docListed\<close> for other
    by simp
qed



section \<open>Children before their parent\<close>
















section \<open>Program listings\<close>

lemma selectAll_append [simp]: "selectAll P (ns @ ms) = selectAll P ns @ selectAll P ms"
  by (simp add: selectAll_def)

lemma mergeText_map_reparse: "mergeText (map reparse ns) = map reparse (mergeText ns)"
proof (induction ns rule: mergeText.induct)
  case 1
  show ?case by simp
next
  case (2 s ns)
  then show ?case by (cases "mergeText ns") (auto split: node.splits)
next
  case (3 name as cs ns)
  then show ?case by simp
qed

lemma merged_mergeText: "merged (mergeText ns)"
proof (induction ns rule: mergeText.induct)
  case 1
  show ?case by simp
next
  case (2 s ns)
  show ?case
  proof (cases "s = []")
    case True
    with 2 show ?thesis by simp
  next
    case False
    with 2 have "merged (mergeText ns)" by simp
    with False show ?thesis
      by (cases "mergeText ns") (auto split: node.splits list.splits)
  qed
next
  case (3 name as cs ns)
  then show ?case by simp
qed

lemma mergeText_merged: "merged ns \<Longrightarrow> mergeText ns = ns"
proof (induction ns rule: mergeText.induct)
  case 1
  show ?case by simp
next
  case (2 s ns)
  then show ?case by (cases ns) (auto split: node.splits)
next
  case (3 name as cs ns)
  then show ?case by simp
qed

lemma mergeText_idem: "mergeText (mergeText ns) = mergeText ns"
  by (rule mergeText_merged) (rule merged_mergeText)

lemma reparse_idem: "reparse (reparse n) = reparse n"
proof (induction n)
  case (Text s)
  show ?case by simp
next
  case (Element name as cs)
  have "map reparse (map reparse cs) = map reparse cs" using Element.IH by simp
  then have "mergeText (map reparse (mergeText (map reparse cs))) = mergeText (map reparse cs)"
    by (metis mergeText_map_reparse mergeText_idem)
  then show ?case by simp
qed

lemma load_idem: "load (load ns) = load ns"
proof -
  have "map reparse (map reparse ns) = map reparse ns" by (simp add: reparse_idem)
  then show ?thesis unfolding load_def
    by (metis mergeText_map_reparse mergeText_idem)
qed

lemma selectAll_mergeText: "length (selectAll P (mergeText ns)) = length (selectAll P ns)"
proof (induction ns rule: mergeText.induct)
  case 1
  show ?case by simp
next
  case (2 s ns)
  then show ?case by (cases "mergeText ns") (auto split: node.splits)
next
  case (3 name as cs ns)
  then show ?case by simp
qed

lemma hasTag_Element: "hasTag t (Element name as cs) = (name = t)"
  by (simp add: hasTag_def)

lemma select_reparse:
  "length (select (hasTag t) (reparse n)) = length (select (hasTag t) n)"
proof (induction n)
  case (Text s)
  show ?case by simp
next
  case (Element name as cs)
  have "length (selectAll (hasTag t) (map reparse cs)) = length (selectAll (hasTag t) cs)"
    using Element.IH by (induction cs) auto
  then show ?case
    using selectAll_mergeText [of "hasTag t" "map reparse cs"]
    by (simp add: select_Element hasTag_Element)
qed

lemma codeCount_load: "codeCount (load ns) = codeCount ns"
proof -
  have "length (selectAll (hasTag t) (map reparse ns)) = length (selectAll (hasTag t) ns)" for t
    using select_reparse by (induction ns) auto
  then show ?thesis by (simp add: codeCount_def load_def selectAll_mergeText)
qed

lemma isListing_Element: "isListing (Element name as cs) = isListing (Element name as cs')"
  by (simp add: isListing_def hasTag_def hasClass_def classes_def)

lemma isListing_code: "isListing el \<Longrightarrow> \<not> hasTag ''code'' el"
  by (auto simp: isListing_def hasTag_def)

lemma codeCount_simps [simp]:
  "codeCount [] = 0"
  "codeCount (n # ns) = length (select (hasTag ''code'') n) + codeCount ns"
  by (simp_all add: codeCount_def)

lemma programlisting_count:
  "length (select (hasTag ''code'') (programlisting n)) =
     length (select (hasTag ''code'') n) + length (outermost isListing n)"
proof (induction n)
  case (Text s)
  show ?case by simp
next
  case (Element name as cs)
  show ?case
  proof (cases "isListing (Element name as cs)")
    case True
    have pre: "\<not> hasTag ''code'' (Element name as cs')" for cs'
      using True isListing_code isListing_Element by blast
    have "length (select (hasTag ''code'') (Element name as [Element ''code'' [] (load cs)])) =
        Suc (codeCount (load cs))"
      using pre by (simp add: codeCount_def select_Element hasTag_Element)
    moreover have "length (select (hasTag ''code'') (Element name as cs)) = codeCount cs"
      using pre by (simp add: codeCount_def select_Element)
    ultimately show ?thesis using True by (simp add: codeCount_load)
  next
    case False
    have kids: "codeCount (map programlisting cs) =
        codeCount cs + length (concat (map (outermost isListing) cs))"
      using Element.IH
    proof (induction cs)
      case Nil
      show ?case by simp
    next
      case (Cons c cs)
      then show ?case by simp
    qed
    have "length (select (hasTag ''code'') (Element name as cs')) =
        (if hasTag ''code'' (Element name as cs) then 1 else 0) + codeCount cs'" for cs'
      by (simp add: codeCount_def select_Element hasTag_Element)
    with kids False show ?thesis by simp
  qed
qed

lemma programlisting_outermost:
  "length (outermost isListing (programlisting n)) = length (outermost isListing n)"
proof (induction n)
  case (Text s)
  show ?case by simp
next
  case (Element name as cs)
  show ?case
  proof (cases "isListing (Element name as cs)")
    case True
    then have "isListing (Element name as [Element ''code'' [] (load cs)])"
      using isListing_Element by blast
    with True show ?thesis by simp
  next
    case False
    then have "\<not> isListing (Element name as (map programlisting cs))"
      using isListing_Element by blast
    moreover have "length (concat (map (outermost isListing) (map programlisting cs))) =
        length (concat (map (outermost isListing) cs))"
      using Element.IH by (induction cs) auto
    ultimately show ?thesis using False by simp
  qed
qed

lemma outermost_nonempty: "select P n \<noteq> [] \<Longrightarrow> outermost P n \<noteq> []"
proof (induction n)
  case (Text s)
  then show ?case by simp
next
  case (Element name as cs)
  show ?case
  proof (cases "P (Element name as cs)")
    case True
    then show ?thesis by simp
  next
    case False
    with Element.prems have "selectAll P cs \<noteq> []" by (simp add: select_Element)
    then obtain c where "c \<in> set cs" "select P c \<noteq> []" by (auto simp: selectAll_def)
    with Element.IH have "c \<in> set cs" "outermost P c \<noteq> []" by auto
    with False show ?thesis by auto
  qed
qed

lemma programlisting_twice:
  assumes "selectAll isListing doc \<noteq> []"
  shows "map programlisting (map programlisting doc) \<noteq> map programlisting doc"
proof -
  have cnt: "codeCount (map programlisting ns) =
      codeCount ns + length (concat (map (outermost isListing) ns))" for ns
  proof (induction ns)
    case Nil
    show ?case by simp
  next
    case (Cons n ns)
    then show ?case using programlisting_count [of n] by simp
  qed
  have out: "length (concat (map (outermost isListing) (map programlisting ns))) =
      length (concat (map (outermost isListing) ns))" for ns
    using programlisting_outermost by (induction ns) auto
  from assms obtain n where "n \<in> set doc" "select isListing n \<noteq> []"
    by (auto simp: selectAll_def)
  then have "n \<in> set doc" "outermost isListing n \<noteq> []" using outermost_nonempty by auto
  then have pos: "0 < length (concat (map (outermost isListing) doc))" by auto
  have "codeCount (map programlisting (map programlisting doc)) =
        codeCount (map programlisting doc) + length (concat (map (outermost isListing) doc))"
    using cnt [of "map programlisting doc"] out [of doc] by simp
  with pos have ne: "codeCount (map programlisting (map programlisting doc)) \<noteq>
        codeCount (map programlisting doc)" by simp
  show ?thesis
  proof
    assume "map programlisting (map programlisting doc) = map programlisting doc"
    then have "codeCount (map programlisting (map programlisting doc)) =
        codeCount (map programlisting doc)" by (rule arg_cong)
    with ne show False by simp
  qed
qed

text \<open>
  C3 as stated fails: on a listing that is already wrapped in a \<^verbatim>\<open>code\<close> element the
  second loop of \<^verbatim>\<open>processHTML\<close> wraps once more, each time it runs.
\<close>

theorem programlisting_idempotent_counterexample:
  \<open>html listingWrapped = ''<pre class="programlisting"><code>ls -l</code></pre>'' \<and>
   html (map programlisting listingWrapped) =
     ''<pre class="programlisting"><code><code>ls -l</code></code></pre>'' \<and>
   html (map programlisting (map programlisting listingWrapped)) =
     ''<pre class="programlisting"><code><code><code>ls -l</code></code></code></pre>'' \<and>
   map programlisting (map programlisting listingWrapped) \<noteq> map programlisting listingWrapped\<close>
  by (simp add: listingWrapped_def isListing_def hasTag_def hasClass_def classes_def attr_def
      isSpace_def load_def html_def render_attribs_def singleTag_def)

text \<open>
  C3, amended. The loop puts the children of every matching \<^verbatim>\<open>pre\<close> into a new
  \<^verbatim>\<open>code\<close> element, whatever they are; a second run wraps them again; and on a document
  that holds a matching \<^verbatim>\<open>pre\<close>, two runs never give what one run gives.
\<close>

theorem programlisting_wraps_again:
  "(isListing (Element name as cs) \<longrightarrow>
      programlisting (Element name as cs) = Element name as [Element ''code'' [] (load cs)] \<and>
      programlisting (programlisting (Element name as cs)) =
        Element name as [Element ''code'' [] [Element ''code'' [] (load cs)]]) \<and>
   (selectAll isListing doc \<noteq> [] \<longrightarrow>
      map programlisting (map programlisting doc) \<noteq> map programlisting doc)"
proof -
  have a: "programlisting (Element name as cs) = Element name as [Element ''code'' [] (load cs)] \<and>
      programlisting (programlisting (Element name as cs)) =
        Element name as [Element ''code'' [] [Element ''code'' [] (load cs)]]"
    if l: "isListing (Element name as cs)"
  proof -
    from l have l': "isListing (Element name as [Element ''code'' [] (load cs)])"
      using isListing_Element by blast
    have "load [Element ''code'' [] (load cs)] = [Element ''code'' [] (load cs)]"
      using load_idem [of cs] by (simp add: load_def)
    with l l' show ?thesis by simp
  qed
  from a programlisting_twice show ?thesis by blast
qed

theorem programlisting_wraps_again_witness:
  "programlisting (Element ''pre'' [(''class'', ''screen'')] [Text ''$ ls'']) =
     Element ''pre'' [(''class'', ''screen'')] [Element ''code'' [] [Text ''$ ls'']] \<and>
   map programlisting (map programlisting listingWrapped) \<noteq> map programlisting listingWrapped"
proof -
  have l: "isListing (Element ''pre'' [(''class'', ''screen'')] [Text ''$ ls''])"
    by (simp add: isListing_def hasTag_def hasClass_def classes_def attr_def isSpace_def)
  have s: "selectAll isListing listingWrapped \<noteq> []"
    by (simp add: listingWrapped_def select_Element isListing_def hasTag_def hasClass_def
        classes_def attr_def isSpace_def)
  from programlisting_wraps_again [of "''pre''" "[(''class'', ''screen'')]" "[Text ''$ ls'']"
      listingWrapped] l s
  show ?thesis by (simp add: load_def)
qed

section \<open>Literal blocks, examples and footnote references\<close>

text \<open>
  C4 fails on the code: for a literal block without a paragraph \<^verbatim>\<open>processHTML\<close> ends
  in a \<^verbatim>\<open>TypeError\<close> (\<^verbatim>\<open>null.trim()\<close>) and returns nothing.
\<close>

theorem literallayout_without_paragraph:
  \<open>html literalBare = ''<div class="literallayout"></div>'' \<and>
   processHTML literalBare = Inl TypeError\<close>
proof -
  have \<open>html literalBare = ''<div class="literallayout"></div>''\<close>
    by (simp add: literalBare_def html_def render_attribs_def singleTag_def)
  moreover have "processHTML literalBare = Inl TypeError"
    by code_simp
  ultimately show ?thesis by simp
qed

lemma processHTML_exampleOne:
  "processHTML exampleOne =
     Inr [Element ''div'' [(''class'', ''example'')]
            [Element ''h6'' [(''id'', ''ex1'')] [Text ''Caption''], Text ''Body'']]"
  by code_simp

text \<open>
  C5 as stated fails: the output of \<^verbatim>\<open>processHTML\<close> for the example container of the
  spec is not the heading followed by the body.
\<close>

theorem example_output_counterexample:
  \<open>html exampleOne =
     ''<div id="ex1" class="example"><div class="example-title">Caption</div>Body</div>'' \<and>
   \<not> (\<exists>out. processHTML exampleOne = Inr out \<and> html out = ''<h6 id="ex1">Caption</h6>Body'')\<close>
  unfolding processHTML_exampleOne
  by (simp add: exampleOne_def html_def render_attribs_def singleTag_def)

text \<open>
  C5, amended. For the example container of the spec \<^verbatim>\<open>processHTML\<close> returns the
  container without its id, holding the new \<^verbatim>\<open>h6\<close> with the id in the place of the
  caption, followed by the body.
\<close>

theorem example_keeps_container:
  \<open>html exampleOne =
     ''<div id="ex1" class="example"><div class="example-title">Caption</div>Body</div>'' \<and>
   processHTML exampleOne =
     Inr [Element ''div'' [(''class'', ''example'')]
            [Element ''h6'' [(''id'', ''ex1'')] [Text ''Caption''], Text ''Body'']] \<and>
   html [Element ''div'' [(''class'', ''example'')]
            [Element ''h6'' [(''id'', ''ex1'')] [Text ''Caption''], Text ''Body'']] =
     ''<div class="example"><h6 id="ex1">Caption</h6>Body</div>''\<close>
  using processHTML_exampleOne
  by (simp add: exampleOne_def html_def render_attribs_def singleTag_def)

lemma processHTML_footnoteLink:
  "processHTML footnoteLink =
     Inr [Element ''sup'' [] [Text [], Element ''a'' [(''class'', ''footnote'')] [Text ''3'']]]"
  by code_simp

lemma processHTML_footnoteNested:
  "processHTML footnoteNested =
     Inr [Element ''a'' [(''class'', ''footnote'')]
            [Element ''b'' []
               [Element ''sup'' []
                  [Text [], Element ''a'' [(''class'', ''footnote'')] [Text ''1'']]]]]"
  by code_simp

text \<open>
  C6 as stated fails twice: the \<^verbatim>\<open>sup\<close> that replaces the link holds the link, and the
  link holds the \<^verbatim>\<open>3\<close>; and a link that is skipped because its only child is not a
  \<^verbatim>\<open>sup\<close> still has the footnote references inside it rewritten.
\<close>

theorem footnote_link_counterexample:
  \<open>html footnoteLink = ''<a class="footnote"><sup>3</sup></a>'' \<and>
   \<not> (\<exists>out. processHTML footnoteLink = Inr out \<and>
           html out = ''<sup>3<a class="footnote"></a></sup>'') \<and>
   length (filter isTag (childNodes (hd footnoteNested))) = 1 \<and>
   \<not> hasTag ''sup'' (hd (filter isTag (childNodes (hd footnoteNested)))) \<and>
   \<not> (\<exists>out. processHTML footnoteNested = Inr out \<and> html out = html footnoteNested)\<close>
  unfolding processHTML_footnoteLink processHTML_footnoteNested
  by (simp add: footnoteLink_def footnoteNested_def html_def render_attribs_def singleTag_def
      hasTag_def)

lemma footnoteRef_none: "select isFootnoteRef n = [] \<Longrightarrow> footnoteRef n = n"
proof (induction n)
  case (Text s)
  show ?case by simp
next
  case (Element name as cs)
  from Element.prems have n: "\<not> isFootnoteRef (Element name as cs)"
    and k: "selectAll isFootnoteRef cs = []"
    by (auto simp: select_Element split: if_splits)
  from k Element.IH have "map footnoteRef cs = cs"
    by (induction cs) auto
  with n show ?case by simp
qed

text \<open>
  C6, amended. The link \<^verbatim>\<open><a class="footnote"><sup>3</sup></a>\<close> becomes a \<^verbatim>\<open>sup\<close> whose
  content is the link, with \<^verbatim>\<open>3\<close> as the content of the link. A footnote reference
  whose element children are not exactly one \<^verbatim>\<open>sup\<close> keeps its tag and attributes, and
  its children are rewritten in their turn; when it holds no other footnote reference it
  is left as it is.
\<close>

theorem footnote_link_rewrite:
  \<open>processHTML footnoteLink =
     Inr [Element ''sup'' [] [Text [], Element ''a'' [(''class'', ''footnote'')] [Text ''3'']]] \<and>
   html [Element ''sup'' [] [Text [], Element ''a'' [(''class'', ''footnote'')] [Text ''3'']]] =
     ''<sup><a class="footnote">3</a></sup>'' \<and>
   (isFootnoteRef (Element name as cs) \<and>
    \<not> (\<exists>child. filter isTag cs = [child] \<and> hasTag ''sup'' child) \<longrightarrow>
      footnoteRef (Element name as cs) = Element name as (map footnoteRef cs) \<and>
      (selectAll isFootnoteRef cs = [] \<longrightarrow> footnoteRef (Element name as cs) = Element name as cs))\<close>
proof -
  have a: "footnoteRef (Element name as cs) = Element name as (map footnoteRef cs)"
    if "isFootnoteRef (Element name as cs)"
      "\<not> (\<exists>child. filter isTag cs = [child] \<and> hasTag ''sup'' child)"
    using that by (auto split: list.splits)
  have b: "map footnoteRef cs = cs" if "selectAll isFootnoteRef cs = []"
    using that footnoteRef_none by (induction cs) auto
  have c: \<open>html [Element ''sup'' [] [Text [], Element ''a'' [(''class'', ''footnote'')] [Text ''3'']]] =
     ''<sup><a class="footnote">3</a></sup>''\<close>
    by (simp add: html_def render_attribs_def singleTag_def)
  from a b c processHTML_footnoteLink show ?thesis by auto
qed

theorem footnote_link_rewrite_witness:
  "footnoteRef (Element ''a'' [(''class'', ''footnoteref'')]
                  [Element ''sup'' [] [Text ''1''], Element ''sup'' [] [Text ''2'']]) =
     Element ''a'' [(''class'', ''footnoteref'')]
       [Element ''sup'' [] [Text ''1''], Element ''sup'' [] [Text ''2'']]"
proof -
  have i: "isFootnoteRef (Element ''a'' [(''class'', ''footnoteref'')]
                  [Element ''sup'' [] [Text ''1''], Element ''sup'' [] [Text ''2'']])"
    by (simp add: isFootnoteRef_def hasTag_def hasClass_def classes_def attr_def isSpace_def)
  have n: "\<not> (\<exists>child. filter isTag [Element ''sup'' [] [Text ''1''], Element ''sup'' [] [Text ''2'']]
                 = [child] \<and> hasTag ''sup'' child)"
    by simp
  have s: "selectAll isFootnoteRef [Element ''sup'' [] [Text ''1''], Element ''sup'' [] [Text ''2'']] = []"
    by (simp add: select_Element isFootnoteRef_def hasTag_def)
  from footnote_link_rewrite [of "''a''" "[(''class'', ''footnoteref'')]"
      "[Element ''sup'' [] [Text ''1''], Element ''sup'' [] [Text ''2'']]"] i n s
  show ?thesis by blast
qed


end
